theory Spec2Isabelle
  imports Main "HOL-Library.Char_ord" "HOL-Library.List_Lexorder"
begin

section \<open>Process spawn: environment and exit handling (core/spawn/src/spawn.ts)\<close>

text \<open>
  JavaScript strings are modelled as \<^typ>\<open>string\<close>; a value that may be
  \<^verbatim>\<open>undefined\<close> or \<^verbatim>\<open>null\<close> is an \<^typ>\<open>'a option\<close>; an object used as a
  dictionary (\<^verbatim>\<open>NodeJS.ProcessEnv\<close>) is a map. A rejected promise is the left
  summand of a sum type.
\<close>

datatype SpawnInput = InputBuffer string | InputInherit

datatype SpawnOutput = OutIgnore | OutInherit | OutEcho | OutBuffer

record SpawnOptions =
  cwd :: "string option"
  env :: "(string \<rightharpoonup> string) option"
  paths :: "string list option"
  inputOpt :: "SpawnInput option"
  outputOpt :: "SpawnOutput option"
  logCommand :: "bool option"
  allowNonZeroExitCode :: "bool option"

text \<open>
  The defaults of the destructuring at the head of \<^verbatim>\<open>spawnAsync\<close>. The option
  \<^verbatim>\<open>logCommand\<close> may also be an object that maps the arguments to print; where the
  handlers below test it, an object counts as true.
\<close>

definition optPaths :: "SpawnOptions \<Rightarrow> string list" where
  "optPaths options = (case paths options of None \<Rightarrow> [] | Some ps \<Rightarrow> ps)"

definition optOutput :: "SpawnOptions \<Rightarrow> SpawnOutput" where
  "optOutput options = (case outputOpt options of None \<Rightarrow> OutBuffer | Some out \<Rightarrow> out)"

definition optLogCommand :: "SpawnOptions \<Rightarrow> bool" where
  "optLogCommand options =
     (case logCommand options of
        None \<Rightarrow> optOutput options = OutEcho \<or> optOutput options = OutInherit
      | Some b \<Rightarrow> b)"

definition optAllowNonZeroExitCode :: "SpawnOptions \<Rightarrow> bool" where
  "optAllowNonZeroExitCode options =
     (case allowNonZeroExitCode options of None \<Rightarrow> False | Some b \<Rightarrow> b)"

subsection \<open>The environment of the child\<close>

text \<open>\<^verbatim>\<open>Array.prototype.join\<close>: the elements with the separator between them.\<close>

fun join :: "string \<Rightarrow> string list \<Rightarrow> string" where
  "join sep [] = []"
| "join sep [x] = x"
| "join sep (x # y # ys) = x @ sep @ join sep (y # ys)"

text \<open>\<^verbatim>\<open>Boolean(value)\<close> of a value that is a string or undefined.\<close>

fun truthy :: "string option \<Rightarrow> bool" where
  "truthy None = False"
| "truthy (Some s) = (s \<noteq> [])"

text \<open>\<^verbatim>\<open>env?.PATH ?? process.env.PATH\<close>: the caller's value unless it is undefined.\<close>

definition inheritedPATH :: "(string \<rightharpoonup> string) \<Rightarrow> SpawnOptions \<Rightarrow> string option" where
  "inheritedPATH processEnv options =
     (case env options of
        None \<Rightarrow> processEnv ''PATH''
      | Some e \<Rightarrow> (case e ''PATH'' of None \<Rightarrow> processEnv ''PATH'' | Some p \<Rightarrow> Some p))"

text \<open>
  The array literal of the \<^verbatim>\<open>PATH\<close> entry, in the order the source writes it.
  \<^verbatim>\<open>nodePath.dirname\<close>, \<^verbatim>\<open>npmRunPath\<close> (called with the working directory and an
  empty base path) and \<^verbatim>\<open>nodePath.delimiter\<close> belong to the platform and to a
  library: they are parameters.
\<close>

definition pathSegments ::
  "(string \<Rightarrow> string) \<Rightarrow> (string option \<Rightarrow> string) \<Rightarrow> string \<Rightarrow>
   (string \<rightharpoonup> string) \<Rightarrow> SpawnOptions \<Rightarrow> string option list" where
  "pathSegments dirname npmRunPath execPath processEnv options =
     [Some (dirname execPath),
      Some (npmRunPath (cwd options)),
      inheritedPATH processEnv options]
     @ map Some (optPaths options)"

definition childPATH ::
  "(string \<Rightarrow> string) \<Rightarrow> (string option \<Rightarrow> string) \<Rightarrow> string \<Rightarrow> string \<Rightarrow>
   (string \<rightharpoonup> string) \<Rightarrow> SpawnOptions \<Rightarrow> string" where
  "childPATH dirname npmRunPath delimiter execPath processEnv options =
     join delimiter
       (map the (filter truthy (pathSegments dirname npmRunPath execPath processEnv options)))"

text \<open>
  The environment handed to \<^verbatim>\<open>crossSpawn\<close>: the process environment, overridden by
  the caller's, with \<^verbatim>\<open>PATH\<close> replaced. (A name the caller maps to undefined is read
  as a name the caller does not give.)
\<close>

definition childEnv ::
  "(string \<Rightarrow> string) \<Rightarrow> (string option \<Rightarrow> string) \<Rightarrow> string \<Rightarrow> string \<Rightarrow>
   (string \<rightharpoonup> string) \<Rightarrow> SpawnOptions \<Rightarrow> (string \<rightharpoonup> string)" where
  "childEnv dirname npmRunPath delimiter execPath processEnv options =
     (processEnv ++ (case env options of None \<Rightarrow> Map.empty | Some e \<Rightarrow> e))
       (''PATH'' \<mapsto> childPATH dirname npmRunPath delimiter execPath processEnv options)"

text \<open>The segments of a string between the occurrences of a separator.\<close>

fun splitOn :: "char \<Rightarrow> string \<Rightarrow> string list" where
  "splitOn sep [] = [[]]"
| "splitOn sep (c # cs) =
     (if c = sep then [] # splitOn sep cs
      else (case splitOn sep cs of [] \<Rightarrow> [[c]] | w # ws \<Rightarrow> (c # w) # ws))"

text \<open>
  The composition as the specification words it: the segments of the runtime directory,
  of the local bin path, of the caller's entries and then of the inherited or overridden
  \<^verbatim>\<open>PATH\<close>, in this order, the empty segments removed, joined with the separator.
\<close>

definition specPATH ::
  "(string \<Rightarrow> string) \<Rightarrow> (string option \<Rightarrow> string) \<Rightarrow> char \<Rightarrow> string \<Rightarrow>
   (string \<rightharpoonup> string) \<Rightarrow> SpawnOptions \<Rightarrow> string" where
  "specPATH dirname npmRunPath delimiter execPath processEnv options =
     join [delimiter]
       (filter (\<lambda>s. s \<noteq> [])
          (concat (map (splitOn delimiter)
             ([dirname execPath, npmRunPath (cwd options)]
              @ optPaths options
              @ (case inheritedPATH processEnv options of None \<Rightarrow> [] | Some p \<Rightarrow> [p])))))"

subsection \<open>The close and error events of the child\<close>

datatype stream = Stdout | Stderr

text \<open>One entry of the \<^verbatim>\<open>data\<close> array: the stream and the chunk read from it.\<close>

type_synonym chunk = "stream \<times> string"

datatype spawn_error =
    SpawnExitCodeError string int "string option"
  | CommandRequired string
  | ChildError string

record SpawnResult =
  captured :: "chunk list"
  exitCode :: int
  signalCode :: "string option"
  ok :: bool

text \<open>The getters of the result that read the captured chunks.\<close>

definition stdout :: "SpawnResult \<Rightarrow> string" where
  "stdout r = concat (map snd (filter (\<lambda>c. fst c = Stdout) (captured r)))"

definition stderr :: "SpawnResult \<Rightarrow> string" where
  "stderr r = concat (map snd (filter (\<lambda>c. fst c = Stderr) (captured r)))"

definition combined :: "SpawnResult \<Rightarrow> string" where
  "combined r = concat (map snd (captured r))"

text \<open>
  What the handlers write to the log: a flush, the command line, and the buffered
  output (which the source decodes and trims before printing).
\<close>

datatype log_event = LogFlush | LogCommand string "string list" | LogOutput string

text \<open>
  The \<^verbatim>\<open>close\<close> handler. \<^verbatim>\<open>exitCode ??= 1\<close> replaces a null exit code; a non-zero
  code that is not tolerated rejects, after the buffered output has been printed;
  otherwise the promise resolves with the result.
\<close>

definition onClose ::
  "string \<Rightarrow> string list \<Rightarrow> SpawnOptions \<Rightarrow> chunk list \<Rightarrow> int option \<Rightarrow> string option \<Rightarrow>
   log_event list \<times> (spawn_error + SpawnResult)" where
  "onClose cmd args options dat exitCode0 signal =
     (let code = (case exitCode0 of None \<Rightarrow> 1 | Some c \<Rightarrow> c) in
      if code \<noteq> 0 \<and> \<not> optAllowNonZeroExitCode options then
        (LogFlush #
           (if dat \<noteq> [] then
              (if \<not> optLogCommand options then [LogCommand cmd args] else [])
              @ [LogOutput (concat (map snd dat))]
            else []),
         Inl (SpawnExitCodeError cmd code signal))
      else
        ([LogFlush],
         Inr \<lparr>captured = dat, exitCode = code, signalCode = signal, ok = (code = 0)\<rparr>))"

text \<open>
  The \<^verbatim>\<open>error\<close> handler: a launch failure with code \<^verbatim>\<open>ENOENT\<close> becomes the
  "command is required" error, any other error is passed on.
\<close>

definition onError :: "string \<Rightarrow> string option \<Rightarrow> string \<Rightarrow> spawn_error" where
  "onError cmd code message =
     (if code = Some ''ENOENT'' then CommandRequired cmd else ChildError message)"

subsection \<open>An example environment\<close>

definition exampleDirname :: "string \<Rightarrow> string" where
  "exampleDirname path = (if path = ''/usr/local/bin/node'' then ''/usr/local/bin'' else ''.'')"

definition exampleRunPath :: "string option \<Rightarrow> string" where
  "exampleRunPath dir =
     (case dir of None \<Rightarrow> ''node_modules/.bin'' | Some d \<Rightarrow> d @ ''/node_modules/.bin'')"

definition exampleProcessEnv :: "string \<rightharpoonup> string" where
  "exampleProcessEnv = [''HOME'' \<mapsto> ''/root'', ''PATH'' \<mapsto> ''/usr/bin'']"

definition exampleOptions :: SpawnOptions where
  "exampleOptions =
     \<lparr>cwd = Some ''/w'', env = None, paths = Some [''/extra'', ''''], inputOpt = None,
      outputOpt = None, logCommand = None, allowNonZeroExitCode = None\<rparr>"

text \<open>
  A caller that overrides \<^verbatim>\<open>PATH\<close>, one whose environment does not name it, and one
  whose \<^verbatim>\<open>PATH\<close> has an empty segment in it.
\<close>

definition overridingOptions :: SpawnOptions where
  "overridingOptions =
     \<lparr>cwd = Some ''/w'', env = Some [''PATH'' \<mapsto> ''/opt/bin'', ''CI'' \<mapsto> ''1''],
      paths = Some [''/extra''], inputOpt = None, outputOpt = None, logCommand = None,
      allowNonZeroExitCode = None\<rparr>"

definition unnamedPathOptions :: SpawnOptions where
  "unnamedPathOptions =
     \<lparr>cwd = None, env = Some [''CI'' \<mapsto> ''1''], paths = None, inputOpt = None,
      outputOpt = None, logCommand = None, allowNonZeroExitCode = None\<rparr>"

definition gappedOptions :: SpawnOptions where
  "gappedOptions =
     \<lparr>cwd = Some ''/w'', env = Some [''PATH'' \<mapsto> ''/usr/bin::/bin''], paths = None,
      inputOpt = None, outputOpt = None, logCommand = None, allowNonZeroExitCode = None\<rparr>"

definition tolerantOptions :: SpawnOptions where
  "tolerantOptions = exampleOptions\<lparr>allowNonZeroExitCode := Some True\<rparr>"

section \<open>Dependency range updates (getUpdatePatches)\<close>

subsection \<open>The range pattern\<close>

text \<open>
  A \<^typ>\<open>char\<close> stands for a UTF-16 code unit below 256. \<^verbatim>\<open>\d\<close> is an ASCII digit;
  \<^verbatim>\<open>\s\<close> is, below 256, tab, line feed, vertical tab, form feed, carriage return,
  space and the no-break space.
\<close>

definition isDigit :: "char \<Rightarrow> bool" where
  "isDigit c = (c \<in> set ''0123456789'')"

definition isSpace :: "char \<Rightarrow> bool" where
  "isSpace c = (c \<in> set [CHR 0x09, CHR 0x0A, CHR 0x0B, CHR 0x0C, CHR 0x0D, CHR 0x20, CHR 0xA0])"

text \<open>
  \<^verbatim>\<open>\d+\<close> in front of the rest of the pattern: the longest run of digits, which must
  not be empty; the result is what follows it. (What follows a run of digits in the
  pattern is a dot, a hyphen or the end, so giving back a digit never helps a match.)
\<close>

definition digits1 :: "string \<Rightarrow> string option" where
  "digits1 s = (if takeWhile isDigit s = [] then None else Some (dropWhile isDigit s))"

text \<open>\<^verbatim>\<open>(?:-[^\s|=<>^~]*)?$\<close>\<close>

definition matchPre :: "string \<Rightarrow> bool" where
  "matchPre s =
     (case s of
        [] \<Rightarrow> True
      | c # r \<Rightarrow> c = CHR ''-'' \<and> list_all (\<lambda>d. \<not> isSpace d \<and> d \<notin> set ''|=<>^~'') r)"

text \<open>\<^verbatim>\<open>(?:\.\d+(?:-[^\s|=<>^~]*)?)?$\<close>\<close>

definition matchPatch :: "string \<Rightarrow> bool" where
  "matchPatch s =
     (case s of
        [] \<Rightarrow> True
      | c # r \<Rightarrow> c = CHR ''.'' \<and> (case digits1 r of None \<Rightarrow> False | Some r' \<Rightarrow> matchPre r'))"

text \<open>\<^verbatim>\<open>(?:\.\d+(?:\.\d+(?:-[^\s|=<>^~]*)?)?)?$\<close>\<close>

definition matchMinor :: "string \<Rightarrow> bool" where
  "matchMinor s =
     (case s of
        [] \<Rightarrow> True
      | c # r \<Rightarrow> c = CHR ''.'' \<and> (case digits1 r of None \<Rightarrow> False | Some r' \<Rightarrow> matchPatch r'))"

text \<open>
  \<^verbatim>\<open>\d+(?:\.\d+(?:\.\d+(?:-[^\s|=<>^~]*)?)?)?$\<close>: a bare or partial semantic version,
  to the end of the string.
\<close>

definition matchVersion :: "string \<Rightarrow> bool" where
  "matchVersion s = (case digits1 s of None \<Rightarrow> False | Some r \<Rightarrow> matchMinor r)"

text \<open>
  The ways \<^verbatim>\<open>([=^~]|>=?)?\<close> can match at the start of the string, in the order the
  regular expression tries them: the first alternative, the second with its greedy
  \<^verbatim>\<open>=\<close> and then without it, and last the group left out. Each comes with the
  capture and the rest of the string.
\<close>

definition prefixCandidates :: "string \<Rightarrow> (string option \<times> string) list" where
  "prefixCandidates s =
     (case s of
        [] \<Rightarrow> []
      | c # r \<Rightarrow>
          (if c \<in> set ''=^~'' then [(Some [c], r)] else [])
          @ (if c = CHR ''>''
             then (case r of
                     [] \<Rightarrow> []
                   | d # r' \<Rightarrow> if d = CHR ''='' then [(Some ''>='', r')] else [])
                  @ [(Some ''>'', r)]
             else []))
     @ [(None, s)]"

text \<open>
  \<^verbatim>\<open>depRange.match(/^([=^~]|>=?)?\d+(?:\.\d+(?:\.\d+(?:-[^\s|=<>^~]*)?)?)?$/u)\<close>:
  \<^term>\<open>None\<close> when the string does not match, otherwise the first capture group,
  itself \<^term>\<open>None\<close> when the group took no part in the match.
\<close>

definition matchRange :: "string \<Rightarrow> string option option" where
  "matchRange s =
     (case filter (\<lambda>c. matchVersion (snd c)) (prefixCandidates s) of
        [] \<Rightarrow> None
      | c # _ \<Rightarrow> Some (fst c))"

text \<open>\<^verbatim>\<open>...?.[1] ?? '^'\<close>\<close>

definition rangePrefix :: "string \<Rightarrow> string" where
  "rangePrefix depRange =
     (case matchRange depRange of Some (Some p) \<Rightarrow> p | _ \<Rightarrow> ''^'')"

text \<open>The operators the first capture group can hold.\<close>

definition operators :: "string list" where
  "operators = [''='', ''^'', ''~'', ''>'', ''>='']"

definition startsWith :: "string \<Rightarrow> string \<Rightarrow> bool" where
  "startsWith p s = (take (length p) s = p)"

subsection \<open>The pass over the dependency scopes\<close>

datatype scope = dependencies | peerDependencies | optionalDependencies | devDependencies

text \<open>
  Of a workspace the pass reads the four dependency objects; each is given by its
  \<^verbatim>\<open>Object.entries\<close>, the name and the recorded range of every dependency.
\<close>

type_synonym WerkWorkspace = "scope \<Rightarrow> (string \<times> string) list"

text \<open>The patch: for each scope it touches, the new range of each rewritten dependency.\<close>

type_synonym PackageJson = "scope \<rightharpoonup> (string \<rightharpoonup> string)"

text \<open>The module's map of updates, from a dependency's name to its new version.\<close>

type_synonym DependencyUpdates = "string \<rightharpoonup> string"

definition addUpdate :: "DependencyUpdates \<Rightarrow> string \<Rightarrow> string \<Rightarrow> DependencyUpdates" where
  "addUpdate dependencyUpdates name version = dependencyUpdates(name \<mapsto> version)"

text \<open>
  \<^verbatim>\<open>{ ...packagePatch, [scope]: { ...packagePatch?.[scope], [depName]: newDepRange } }\<close>
\<close>

definition setPatch :: "PackageJson option \<Rightarrow> scope \<Rightarrow> string \<Rightarrow> string \<Rightarrow> PackageJson" where
  "setPatch packagePatch sc depName newDepRange =
     (let whole = (case packagePatch of None \<Rightarrow> Map.empty | Some p \<Rightarrow> p);
          inner = (case whole sc of None \<Rightarrow> Map.empty | Some d \<Rightarrow> d)
      in whole(sc \<mapsto> inner(depName \<mapsto> newDepRange)))"

text \<open>
  The text a template literal gives for the result of \<^verbatim>\<open>minVersion\<close>, a version or
  \<^verbatim>\<open>null\<close>.
\<close>

definition showMinVersion :: "string option \<Rightarrow> string" where
  "showMinVersion m = (case m of None \<Rightarrow> ''null'' | Some v \<Rightarrow> v)"

text \<open>A name between double quotes, as the log lines write it.\<close>

definition quoted :: "string \<Rightarrow> string" where
  "quoted s = CHR 0x22 # s @ [CHR 0x22]"

text \<open>
  The body of the inner loop, for one entry of one scope. The state is the patch so
  far and the debug lines written. \<^verbatim>\<open>satisfies\<close> and \<^verbatim>\<open>minVersion\<close> are the semver
  library's: they are parameters. (\<^verbatim>\<open>minVersion\<close> is only reached for a range that
  \<^verbatim>\<open>satisfies\<close> has accepted.)
\<close>

definition patchEntry ::
  "(string \<Rightarrow> string \<Rightarrow> bool) \<Rightarrow> (string \<Rightarrow> string option) \<Rightarrow> DependencyUpdates \<Rightarrow> bool \<Rightarrow>
   scope \<Rightarrow> PackageJson option \<times> string list \<Rightarrow> string \<times> string \<Rightarrow>
   PackageJson option \<times> string list" where
  "patchEntry satisfies minVersion dependencyUpdates strict sc st entry =
     (let packagePatch = fst st; logged = snd st; depName = fst entry; depRange = snd entry in
      case dependencyUpdates depName of
        None \<Rightarrow> st
      | Some version \<Rightarrow>
          if depRange = ''*'' \<or> depRange = ''x'' \<or> startsWith ''file:'' depRange then st
          else
            let prefix = rangePrefix depRange;
                newDepRange = prefix @ version
            in
              if newDepRange = depRange then st
              else if \<not> strict \<and> satisfies version depRange
                      \<and> satisfies version (''~'' @ showMinVersion (minVersion depRange))
              then (packagePatch,
                    logged @ [''Ignoring inconsequential dependency '' @ quoted depName
                              @ '' update ('' @ depRange @ '' -> '' @ newDepRange @ '').''])
              else (Some (setPatch packagePatch sc depName newDepRange),
                    logged @ [''Updating dependency '' @ quoted depName
                              @ '' ('' @ depRange @ '' -> '' @ newDepRange @ '').'']))"

definition scopes :: "scope list" where
  "scopes = [dependencies, peerDependencies, optionalDependencies, devDependencies]"

definition patchScope ::
  "(string \<Rightarrow> string \<Rightarrow> bool) \<Rightarrow> (string \<Rightarrow> string option) \<Rightarrow> DependencyUpdates \<Rightarrow> bool \<Rightarrow>
   WerkWorkspace \<Rightarrow> PackageJson option \<times> string list \<Rightarrow> scope \<Rightarrow>
   PackageJson option \<times> string list" where
  "patchScope satisfies minVersion dependencyUpdates strict workspace st sc =
     foldl (patchEntry satisfies minVersion dependencyUpdates strict sc) st (workspace sc)"

definition getUpdatePatches ::
  "(string \<Rightarrow> string \<Rightarrow> bool) \<Rightarrow> (string \<Rightarrow> string option) \<Rightarrow> DependencyUpdates \<Rightarrow> bool \<Rightarrow>
   WerkWorkspace \<Rightarrow> PackageJson option \<times> string list" where
  "getUpdatePatches satisfies minVersion dependencyUpdates strict workspace =
     foldl (patchScope satisfies minVersion dependencyUpdates strict workspace) (None, []) scopes"

text \<open>The range the patch records for a dependency of a scope, if it records one.\<close>

definition patched :: "PackageJson option \<Rightarrow> scope \<Rightarrow> string \<Rightarrow> string option" where
  "patched packagePatch sc depName =
     (case packagePatch of
        None \<Rightarrow> None
      | Some p \<Rightarrow> (case p sc of None \<Rightarrow> None | Some d \<Rightarrow> d depName))"

text \<open>The range of a dependency once the patch is applied to the manifest.\<close>

definition rangeAfter :: "PackageJson option \<Rightarrow> scope \<Rightarrow> string \<Rightarrow> string \<Rightarrow> string" where
  "rangeAfter packagePatch sc depName depRange =
     (case patched packagePatch sc depName of None \<Rightarrow> depRange | Some r \<Rightarrow> r)"

text \<open>
  What the loop body decides for one entry, read off its branches: the new range when
  the entry is rewritten, \<^term>\<open>None\<close> when it is left alone.
\<close>

definition entryRange ::
  "(string \<Rightarrow> string \<Rightarrow> bool) \<Rightarrow> (string \<Rightarrow> string option) \<Rightarrow> DependencyUpdates \<Rightarrow> bool \<Rightarrow>
   string \<times> string \<Rightarrow> string option" where
  "entryRange satisfies minVersion dependencyUpdates strict entry =
     (case dependencyUpdates (fst entry) of
        None \<Rightarrow> None
      | Some version \<Rightarrow>
          if snd entry = ''*'' \<or> snd entry = ''x'' \<or> startsWith ''file:'' (snd entry) then None
          else if rangePrefix (snd entry) @ version = snd entry then None
          else if \<not> strict \<and> satisfies version (snd entry)
                  \<and> satisfies version (''~'' @ showMinVersion (minVersion (snd entry)))
          then None
          else Some (rangePrefix (snd entry) @ version))"

subsection \<open>A fragment of the semver library, for concrete inputs\<close>

text \<open>
  The theorems about the pass hold for any \<^verbatim>\<open>satisfies\<close> and \<^verbatim>\<open>minVersion\<close>. To run
  the pass on concrete manifests, the two functions are modelled here on a fragment:
  versions \<^verbatim>\<open>major.minor.patch\<close> without prerelease or build part, and ranges that
  are \<^verbatim>\<open>*\<close>, \<^verbatim>\<open>x\<close>, the empty string, or one such version behind one of the operators
  \<^verbatim>\<open>^\<close>, \<^verbatim>\<open>~\<close>, \<^verbatim>\<open>>=\<close>, \<^verbatim>\<open>>\<close>, \<^verbatim>\<open>=\<close> or behind none. On any other input the model
  answers that nothing is satisfied.
\<close>

definition digitVal :: "char \<Rightarrow> nat" where
  "digitVal c = of_char c - 48"

text \<open>A numeric identifier: digits, without a leading zero unless it is zero itself.\<close>

definition parseNum :: "string \<Rightarrow> nat option" where
  "parseNum s =
     (if s = [] \<or> \<not> list_all isDigit s \<or> (1 < length s \<and> hd s = CHR ''0'') then None
      else Some (foldl (\<lambda>n c. 10 * n + digitVal c) 0 s))"

type_synonym version3 = "nat \<times> nat \<times> nat"

definition parseVersion :: "string \<Rightarrow> version3 option" where
  "parseVersion s =
     (case map parseNum (splitOn (CHR ''.'') s) of
        [Some a, Some b, Some c] \<Rightarrow> Some (a, b, c)
      | _ \<Rightarrow> None)"

fun versionLess :: "version3 \<Rightarrow> version3 \<Rightarrow> bool" where
  "versionLess (a, b, c) (a', b', c') =
     (a < a' \<or> (a = a' \<and> (b < b' \<or> (b = b' \<and> c < c'))))"

text \<open>The exclusive upper bound of a caret range and of a tilde range.\<close>

fun caretUpper :: "version3 \<Rightarrow> version3" where
  "caretUpper (a, b, c) =
     (if 0 < a then (a + 1, 0, 0) else if 0 < b then (0, b + 1, 0) else (0, 0, c + 1))"

fun tildeUpper :: "version3 \<Rightarrow> version3" where
  "tildeUpper (a, b, c) = (a, b + 1, 0)"

text \<open>A range of the fragment that is not a wildcard: its operator and its version.\<close>

definition parseComparator :: "string \<Rightarrow> (string \<times> version3) option" where
  "parseComparator rng =
     (case filter (\<lambda>c. parseVersion (snd c) \<noteq> None)
             ((if startsWith ''^'' rng then [(''^'', drop 1 rng)] else [])
              @ (if startsWith ''~'' rng then [(''~'', drop 1 rng)] else [])
              @ (if startsWith ''>='' rng then [(''>='', drop 2 rng)] else [])
              @ (if startsWith ''>'' rng then [(''>'', drop 1 rng)] else [])
              @ (if startsWith ''='' rng then [(''='', drop 1 rng)] else [])
              @ [([], rng)]) of
        [] \<Rightarrow> None
      | c # _ \<Rightarrow> Some (fst c, the (parseVersion (snd c))))"

definition isWildcard :: "string \<Rightarrow> bool" where
  "isWildcard rng = (rng = ''*'' \<or> rng = ''x'' \<or> rng = [])"

definition semverSatisfies :: "string \<Rightarrow> string \<Rightarrow> bool" where
  "semverSatisfies version rng =
     (case parseVersion version of
        None \<Rightarrow> False
      | Some v \<Rightarrow>
          if isWildcard rng then True
          else (case parseComparator rng of
                  None \<Rightarrow> False
                | Some (oper, r) \<Rightarrow>
                    if oper = ''^'' then \<not> versionLess v r \<and> versionLess v (caretUpper r)
                    else if oper = ''~'' then \<not> versionLess v r \<and> versionLess v (tildeUpper r)
                    else if oper = ''>='' then \<not> versionLess v r
                    else if oper = ''>'' then versionLess r v
                    else v = r))"

definition showDigit :: "nat \<Rightarrow> char" where
  "showDigit n = ''0123456789'' ! (n mod 10)"

function showNat :: "nat \<Rightarrow> string" where
  "showNat n = (if n < 10 then [showDigit n] else showNat (n div 10) @ [showDigit n])"
  by pat_completeness auto
termination
  by (relation "measure (\<lambda>n. n)") auto

declare showNat.simps [simp del]

fun showVersion :: "version3 \<Rightarrow> string" where
  "showVersion (a, b, c) = showNat a @ ''.'' @ showNat b @ ''.'' @ showNat c"

definition semverMinVersion :: "string \<Rightarrow> string option" where
  "semverMinVersion rng =
     (if isWildcard rng then Some ''0.0.0''
      else (case parseComparator rng of
              None \<Rightarrow> None
            | Some (oper, (a, b, c)) \<Rightarrow>
                if oper = ''>'' then Some (showVersion (a, b, c + 1))
                else Some (showVersion (a, b, c))))"

subsection \<open>Example manifests\<close>

text \<open>A manifest with unmanaged ranges next to managed ones, and its updates.\<close>

definition exampleWorkspace :: WerkWorkspace where
  "exampleWorkspace sc =
     (if sc = dependencies then [(''a'', ''*''), (''b'', ''file:../b''), (''c'', ''^1.2.0'')]
      else if sc = devDependencies then [(''d'', ''x''), (''c'', ''~1.2.3'')]
      else [])"

definition exampleUpdates :: DependencyUpdates where
  "exampleUpdates =
     [''a'' \<mapsto> ''2.0.0'', ''b'' \<mapsto> ''2.0.0'', ''c'' \<mapsto> ''1.5.0'', ''d'' \<mapsto> ''0.0.5'']"

text \<open>A patch bump inside a caret range.\<close>

definition churnWorkspace :: WerkWorkspace where
  "churnWorkspace sc = (if sc = dependencies then [(''a'', ''^1.2.0'')] else [])"

definition churnUpdates :: DependencyUpdates where
  "churnUpdates = [''a'' \<mapsto> ''1.2.5'']"

text \<open>One range for each operator, and a bare version.\<close>

definition prefixWorkspace :: WerkWorkspace where
  "prefixWorkspace sc =
     (if sc = dependencies
      then [(''a'', ''^1.2.3''), (''b'', ''~1.2.3''), (''c'', ''>=1.2.3''), (''d'', ''1.2.3'')]
      else [])"

definition prefixUpdates :: DependencyUpdates where
  "prefixUpdates =
     [''a'' \<mapsto> ''1.5.0'', ''b'' \<mapsto> ''1.5.0'', ''c'' \<mapsto> ''1.5.0'', ''d'' \<mapsto> ''1.5.0'']"

section \<open>The bump strategy (commands/version/src/strategies/bump.ts)\<close>

datatype json =
    JUndefined
  | JNull
  | JBool bool
  | JNum int
  | JStr string
  | JArr "json list"
  | JObj "(string \<times> json) list"

text \<open>
  Modelled from the spec: the JSON accessor of the manifest (package \<^verbatim>\<open>@wurk/json\<close>,
  whose source is not at hand), "a mutable JSON config document (the manifest) with a
  \<^verbatim>\<open>isModified\<close> flag set whenever a field is patched". \<^verbatim>\<open>config.at(key).set(v)\<close>
  stores the value under the key of the document and sets the flag.
\<close>

record JsonAccessor =
  document :: json
  isModified :: bool

fun setKey :: "string \<Rightarrow> json \<Rightarrow> (string \<times> json) list \<Rightarrow> (string \<times> json) list" where
  "setKey k v [] = [(k, v)]"
| "setKey k v (e # es) = (if fst e = k then (k, v) # es else e # setKey k v es)"

definition setAt :: "string \<Rightarrow> json \<Rightarrow> JsonAccessor \<Rightarrow> JsonAccessor" where
  "setAt k v config =
     \<lparr>document = (case document config of
                    JObj es \<Rightarrow> JObj (setKey k v es)
                  | _ \<Rightarrow> JObj [(k, v)]),
      isModified = True\<rparr>"

datatype ReleaseType = major | minor | patch | premajor | preminor | prepatch | prerelease

record BumpOptions =
  releaseType :: ReleaseType
  preid :: "string option"

text \<open>Of the workspace, \<^verbatim>\<open>bump\<close> reads the version and the config (and writes to the log).\<close>

record Workspace =
  version :: "string option"
  config :: JsonAccessor

datatype bump_error = InvalidVersion string

text \<open>
  \<^verbatim>\<open>new semver.SemVer(version).inc(releaseType, preid).format()\<close> is the semver
  library's: the parameter \<open>inc\<close> gives the incremented version, or \<^term>\<open>None\<close> where
  the library throws. The result is the debug lines written and the config, or the
  error thrown.
\<close>

definition bump ::
  "(string \<Rightarrow> ReleaseType \<Rightarrow> string option \<Rightarrow> string option) \<Rightarrow> Workspace \<Rightarrow> BumpOptions \<Rightarrow>
   bump_error + (string list \<times> JsonAccessor)" where
  "bump inc workspace options =
     (if \<not> truthy (version workspace) then
        Inr ([''skipping workspace (no version)''], config workspace)
      else
        (case inc (the (version workspace)) (releaseType options) (preid options) of
           None \<Rightarrow> Inl (InvalidVersion (the (version workspace)))
         | Some v \<Rightarrow> Inr ([], setAt ''version'' (JStr v) (config workspace))))"

text \<open>
  For concrete runs: the library's increment on the fragment of plain versions and the
  release types \<^verbatim>\<open>major\<close>, \<^verbatim>\<open>minor\<close> and \<^verbatim>\<open>patch\<close>; elsewhere it gives \<^term>\<open>None\<close>.
\<close>

definition exampleInc :: "string \<Rightarrow> ReleaseType \<Rightarrow> string option \<Rightarrow> string option" where
  "exampleInc v rt pre =
     (case parseVersion v of
        None \<Rightarrow> None
      | Some (a, b, c) \<Rightarrow>
          if rt = major then Some (showVersion (a + 1, 0, 0))
          else if rt = minor then Some (showVersion (a, b + 1, 0))
          else if rt = patch then Some (showVersion (a, b, c + 1))
          else None)"

definition unversionedWorkspace :: Workspace where
  "unversionedWorkspace =
     \<lparr>version = None,
      config = \<lparr>document = JObj [(''name'', JStr ''root''), (''private'', JBool True)],
                isModified = False\<rparr>\<rparr>"

definition versionedWorkspace :: Workspace where
  "versionedWorkspace =
     \<lparr>version = Some ''1.0.0'',
      config = \<lparr>document = JObj [(''name'', JStr ''a''), (''version'', JStr ''1.0.0'')],
                isModified = False\<rparr>\<rparr>"

section \<open>The pnpm adapter: getPublished\<close>

record PackageMetadata =
  metaVersion :: string
  gitHead :: "string option"

text \<open>
  \<^verbatim>\<open>key in entry\<close> and \<^verbatim>\<open>entry[key]\<close> for a parsed JSON value: only an object that is
  not an array has named keys. An object is given by its entries.
\<close>

definition objectGet :: "string \<Rightarrow> json \<Rightarrow> json option" where
  "objectGet k entry = (case entry of JObj es \<Rightarrow> map_of es k | _ \<Rightarrow> None)"

text \<open>
  The type guard of the filter: the entry is an object, has a \<^verbatim>\<open>version\<close> key, and the
  value there is a string. The result is that string.
\<close>

definition entryVersion :: "json \<Rightarrow> string option" where
  "entryVersion entry =
     (case objectGet ''version'' entry of Some (JStr v) \<Rightarrow> Some v | _ \<Rightarrow> None)"

text \<open>\<^verbatim>\<open>typeof info.gitHead === 'string' ? info.gitHead : null\<close>\<close>

definition entryGitHead :: "json \<Rightarrow> string option" where
  "entryGitHead entry =
     (case objectGet ''gitHead'' entry of Some (JStr g) \<Rightarrow> Some g | _ \<Rightarrow> None)"

text \<open>\<^verbatim>\<open>Array.isArray(value) ? value : [value]\<close>, then the filter.\<close>

definition toArray :: "json \<Rightarrow> json list" where
  "toArray v = (case v of JArr xs \<Rightarrow> xs | _ \<Rightarrow> [v])"

definition versionedEntries :: "json \<Rightarrow> json list" where
  "versionedEntries v = filter (\<lambda>entry. entryVersion entry \<noteq> None) (toArray v)"

text \<open>
  \<^verbatim>\<open>Array.prototype.sort\<close> with a comparison function: a stable sort, here by insertion.
  An element goes in front of the first element it does not compare greater than.
\<close>

fun insertBy :: "('a \<Rightarrow> 'a \<Rightarrow> int) \<Rightarrow> 'a \<Rightarrow> 'a list \<Rightarrow> 'a list" where
  "insertBy cmp x [] = [x]"
| "insertBy cmp x (y # ys) = (if cmp x y \<le> 0 then x # y # ys else y # insertBy cmp x ys)"

definition sortBy :: "('a \<Rightarrow> 'a \<Rightarrow> int) \<Rightarrow> 'a list \<Rightarrow> 'a list" where
  "sortBy cmp xs = foldr (insertBy cmp) xs []"

datatype pm_error = SpawnRejected spawn_error | InvalidVersionTypeError

text \<open>The arguments and the options of the registry query.\<close>

definition infoArgs :: "string \<Rightarrow> string \<Rightarrow> string list" where
  "infoArgs ident upperBound =
     [''info'', ''--quiet'', ''--json'', ident @ ''@<='' @ upperBound, ''version'', ''gitHead'']"

definition infoOptions :: "string \<Rightarrow> SpawnOptions" where
  "infoOptions rootDir =
     \<lparr>cwd = Some rootDir, env = None, paths = None, inputOpt = None, outputOpt = None,
      logCommand = None, allowNonZeroExitCode = Some True\<rparr>"

text \<open>
  \<^verbatim>\<open>Pnpm.getPublished\<close>. The parameters are what the method gets from elsewhere:
  \<open>spawn\<close>, which resolves with a result or rejects; \<open>stdoutJson\<close>, the result's getter
  that parses the captured output, unwrapped; and of the semver library \<open>valid\<close>, which
  tells the version strings it accepts, and \<open>rcompare\<close>. The library's \<^verbatim>\<open>rcompare\<close>
  throws a type error on a string that is not a version, and a sort of two or more
  entries compares every one of them: that is the error branch.
\<close>

definition getPublished ::
  "(string \<Rightarrow> string list \<Rightarrow> SpawnOptions \<Rightarrow> spawn_error + SpawnResult) \<Rightarrow>
   (SpawnResult \<Rightarrow> json) \<Rightarrow> (string \<Rightarrow> bool) \<Rightarrow> (string \<Rightarrow> string \<Rightarrow> int) \<Rightarrow>
   string \<Rightarrow> string \<Rightarrow> string \<Rightarrow> pm_error + PackageMetadata option" where
  "getPublished spawn stdoutJson valid rcompare rootDir ident upperBound =
     (case spawn ''pnpm'' (infoArgs ident upperBound) (infoOptions rootDir) of
        Inl e \<Rightarrow> Inl (SpawnRejected e)
      | Inr result \<Rightarrow>
          if \<not> ok result then Inr None
          else
            let entries = versionedEntries (stdoutJson result) in
            if 2 \<le> length entries \<and> \<not> list_all (\<lambda>entry. valid (the (entryVersion entry))) entries
            then Inl InvalidVersionTypeError
            else
              (case sortBy (\<lambda>a b. rcompare (the (entryVersion a)) (the (entryVersion b))) entries of
                 [] \<Rightarrow> Inr None
               | info # _ \<Rightarrow>
                   Inr (Some \<lparr>metaVersion = the (entryVersion info),
                              gitHead = entryGitHead info\<rparr>)))"

subsection \<open>Example registry answers\<close>

text \<open>
  Three answers of the registry: an array of entries, among them some without a string
  version; a single object; and an array in which one version string is not a version.
\<close>

definition registryJson :: json where
  "registryJson =
     JArr [JObj [(''version'', JStr ''1.0.0''), (''gitHead'', JStr ''aaa'')],
           JObj [(''gitHead'', JStr ''bbb''), (''version'', JStr ''1.2.0'')],
           JObj [(''version'', JNum 3), (''gitHead'', JStr ''zzz'')],
           JNull,
           JObj [(''version'', JStr ''1.1.0''), (''gitHead'', JNum 7)]]"

definition soloJson :: json where
  "soloJson = JObj [(''version'', JStr ''0.9.0''), (''gitHead'', JNum 7)]"

definition oddJson :: json where
  "oddJson =
     JArr [JObj [(''version'', JStr ''1.0.0'')], JObj [(''version'', JStr ''not-a-version'')]]"

definition registryResult :: SpawnResult where
  "registryResult = \<lparr>captured = [(Stdout, ''[...]'')], exitCode = 0, signalCode = None, ok = True\<rparr>"

definition soloResult :: SpawnResult where
  "soloResult = \<lparr>captured = [(Stdout, ''{...}'')], exitCode = 0, signalCode = None, ok = True\<rparr>"

definition oddResult :: SpawnResult where
  "oddResult = \<lparr>captured = [(Stdout, ''[odd]'')], exitCode = 0, signalCode = None, ok = True\<rparr>"

definition failedResult :: SpawnResult where
  "failedResult = \<lparr>captured = [], exitCode = 1, signalCode = None, ok = False\<rparr>"

text \<open>
  A machine with the package manager and a registry that knows three packages. Any other
  query ends with exit code 1, which rejects unless the caller tolerates it; any other
  command is missing.
\<close>

definition registrySpawn ::
  "string \<Rightarrow> string list \<Rightarrow> SpawnOptions \<Rightarrow> spawn_error + SpawnResult" where
  "registrySpawn cmd args options =
     (if cmd \<noteq> ''pnpm'' then Inl (CommandRequired cmd)
      else if args = [''info'', ''--quiet'', ''--json'', ''pkg@<=1.5.0'', ''version'', ''gitHead'']
      then Inr registryResult
      else if args = [''info'', ''--quiet'', ''--json'', ''solo@<=1.0.0'', ''version'', ''gitHead'']
      then Inr soloResult
      else if args = [''info'', ''--quiet'', ''--json'', ''odd@<=1.0.0'', ''version'', ''gitHead'']
      then Inr oddResult
      else if optAllowNonZeroExitCode options then Inr failedResult
      else Inl (SpawnExitCodeError cmd 1 None))"

text \<open>A machine without the package manager.\<close>

definition missingSpawn ::
  "string \<Rightarrow> string list \<Rightarrow> SpawnOptions \<Rightarrow> spawn_error + SpawnResult" where
  "missingSpawn cmd args options = Inl (CommandRequired cmd)"

definition registryStdoutJson :: "SpawnResult \<Rightarrow> json" where
  "registryStdoutJson r =
     (if r = registryResult then registryJson
      else if r = soloResult then soloJson
      else if r = oddResult then oddJson
      else JUndefined)"

text \<open>The library's validity test and reverse comparison on the fragment of plain versions.\<close>

definition semverValid :: "string \<Rightarrow> bool" where
  "semverValid v = (parseVersion v \<noteq> None)"

definition semverRcompare :: "string \<Rightarrow> string \<Rightarrow> int" where
  "semverRcompare a b =
     (case (parseVersion a, parseVersion b) of
        (Some x, Some y) \<Rightarrow> if versionLess y x then - 1 else if versionLess x y then 1 else 0
      | _ \<Rightarrow> 0)"

section \<open>Loading command plugins (core/wurk/src/command.ts, second part)\<close>

text \<open>
  Modelled from the spec: the accessor methods \<^verbatim>\<open>at(path)\<close>, \<^verbatim>\<open>as(type, default)\<close> and
  \<^verbatim>\<open>keys()\<close> of the JSON accessor (package \<^verbatim>\<open>@wurk/json\<close>, whose source is not at
  hand): \<^verbatim>\<open>at\<close> gives the value under a key of an object and undefined elsewhere,
  \<^verbatim>\<open>as('array', d)\<close> gives the elements of an array and \<open>d\<close> elsewhere, and
  \<^verbatim>\<open>keys('object')\<close> gives the keys of an object and nothing elsewhere.
\<close>

definition at :: "string \<Rightarrow> json \<Rightarrow> json" where
  "at k v = (case objectGet k v of None \<Rightarrow> JUndefined | Some x \<Rightarrow> x)"

definition asArray :: "json list \<Rightarrow> json \<Rightarrow> json list" where
  "asArray d v = (case v of JArr xs \<Rightarrow> xs | _ \<Rightarrow> d)"

definition keysObject :: "json \<Rightarrow> string list" where
  "keysObject v = (case v of JObj es \<Rightarrow> map fst es | _ \<Rightarrow> [])"

text \<open>
  \<^verbatim>\<open>/^(?:(?:.*\/)?w[eu]rk-command-|@(?:werk|wurk)\/command-).*$/u\<close>. The dot matches
  any character but a line terminator, and the pattern runs from the start of the string
  to its end, so the string holds no line terminator; the name \<^verbatim>\<open>werk-command-\<close> or
  \<^verbatim>\<open>wurk-command-\<close> starts the string or follows a slash, or the string starts with the
  scoped name.
\<close>

definition isLineTerminator :: "char \<Rightarrow> bool" where
  "isLineTerminator c = (c = CHR 0x0A \<or> c = CHR 0x0D)"

text \<open>What follows each slash of a string.\<close>

fun afterSlashes :: "string \<Rightarrow> string list" where
  "afterSlashes [] = []"
| "afterSlashes (c # cs) = (if c = CHR ''/'' then [cs] else []) @ afterSlashes cs"

definition isCommandPackageId :: "string \<Rightarrow> bool" where
  "isCommandPackageId s =
     (\<not> list_ex isLineTerminator s
      \<and> (list_ex (\<lambda>t. startsWith ''werk-command-'' t \<or> startsWith ''wurk-command-'' t)
            (s # afterSlashes s)
         \<or> startsWith ''@werk/command-'' s \<or> startsWith ''@wurk/command-'' s))"

text \<open>\<^verbatim>\<open>typeof value === 'string'\<close>, keeping the string.\<close>

definition jsonStrings :: "json list \<Rightarrow> string list" where
  "jsonStrings vs = concat (map (\<lambda>v. case v of JStr s \<Rightarrow> [s] | _ \<Rightarrow> []) vs)"

text \<open>
  The candidate package identifiers: the dependency names of the four scopes that match
  the pattern, then the explicit ones, without duplicates, sorted (the default sort of
  strings, by code unit).
\<close>

definition packageIds :: "json \<Rightarrow> string list" where
  "packageIds rootPackage =
     sort (remdups
       (filter isCommandPackageId
          (keysObject (at ''dependencies'' rootPackage)
           @ keysObject (at ''devDependencies'' rootPackage)
           @ keysObject (at ''peerDependencies'' rootPackage)
           @ keysObject (at ''optionalDependencies'' rootPackage))
        @ jsonStrings (asArray [] (at ''commands'' (at ''wurk'' rootPackage)))))"

text \<open>
  What importing a package gives: its default export, which is a function or is not, and
  its config. A factory takes the config and returns a value or throws. The values it
  returns are of any type \<open>'v\<close>; \<^verbatim>\<open>isCommand\<close>, which tells the commands among them,
  is a parameter.
\<close>

datatype 'v moduleDefault = NotAFunction | Factory "json \<Rightarrow> string + 'v"

record 'v ImportResult =
  moduleDefault :: "'v moduleDefault"
  moduleConfig :: json

text \<open>
  \<^verbatim>\<open>loadCommandPlugin\<close>: the error lines logged and the command, or null. A throw of the
  import or of the factory is caught.
\<close>

definition loadCommandPlugin ::
  "(string \<Rightarrow> string \<Rightarrow> string + 'v ImportResult) \<Rightarrow> ('v \<Rightarrow> bool) \<Rightarrow> string \<Rightarrow> string \<Rightarrow>
   string list \<times> 'v option" where
  "loadCommandPlugin importRelative isCommand rootDir packageId =
     (case importRelative packageId rootDir of
        Inl err \<Rightarrow>
          ([''loading command package '' @ quoted packageId @ '' threw the following error:'', err],
           None)
      | Inr m \<Rightarrow>
          (case moduleDefault m of
             NotAFunction \<Rightarrow>
               ([''package '' @ quoted packageId @ '' does not export a valid command factory''],
                None)
           | Factory f \<Rightarrow>
               (case f (moduleConfig m) of
                  Inl err \<Rightarrow>
                    ([''loading command package '' @ quoted packageId
                      @ '' threw the following error:'', err],
                     None)
                | Inr command \<Rightarrow>
                    if \<not> isCommand command then
                      ([''package '' @ quoted packageId
                        @ '' command factory returned an invalid command''],
                       None)
                    else ([], Some command))))"

text \<open>
  \<^verbatim>\<open>loadCommandPlugins\<close>: every candidate is loaded, and the results that are not null
  are returned in the order of the candidates. The plugins load concurrently; the error
  lines are kept per candidate.
\<close>

definition loadCommandPlugins ::
  "(string \<Rightarrow> string \<Rightarrow> string + 'v ImportResult) \<Rightarrow> ('v \<Rightarrow> bool) \<Rightarrow> string \<Rightarrow> json \<Rightarrow>
   (string \<times> string list) list \<times> 'v list" where
  "loadCommandPlugins importRelative isCommand rootDir rootPackage =
     (let commands = map (\<lambda>packageId. (packageId,
                            loadCommandPlugin importRelative isCommand rootDir packageId))
                       (packageIds rootPackage)
      in (map (\<lambda>r. (fst r, fst (snd r))) commands,
          map the (filter (\<lambda>v. v \<noteq> None) (map (\<lambda>r. snd (snd r)) commands))))"

subsection \<open>An example repository\<close>

definition pluginRoot :: json where
  "pluginRoot =
     JObj [(''name'', JStr ''root''),
           (''dependencies'',
              JObj [(''wurk-command-run'', JStr ''^1.0.0''), (''semver'', JStr ''^7.0.0''),
                    (''@wurk/command-list'', JStr ''^1.0.0'')]),
           (''devDependencies'',
              JObj [(''@acme/werk-command-bad'', JStr ''*''), (''wurk-command-run'', JStr ''*'')]),
           (''wurk'', JObj [(''commands'', JArr [JStr ''./local/throws'', JNum 1,
                                                  JStr ''./local/shape''])])]"

text \<open>A value stands for a command when it names one: the empty name is the wrong shape.\<close>

definition pluginIsCommand :: "string \<Rightarrow> bool" where
  "pluginIsCommand v = (v \<noteq> [])"

definition pluginImport :: "string \<Rightarrow> string \<Rightarrow> string + string ImportResult" where
  "pluginImport packageId rootDir =
     (if packageId = ''wurk-command-run''
      then Inr \<lparr>moduleDefault = Factory (\<lambda>c. Inr ''run''), moduleConfig = JNull\<rparr>
      else if packageId = ''@wurk/command-list''
      then Inr \<lparr>moduleDefault = Factory (\<lambda>c. Inr ''list''), moduleConfig = JNull\<rparr>
      else if packageId = ''@acme/werk-command-bad''
      then Inr \<lparr>moduleDefault = NotAFunction, moduleConfig = JNull\<rparr>
      else if packageId = ''./local/throws''
      then Inr \<lparr>moduleDefault = Factory (\<lambda>c. Inl ''boom''), moduleConfig = JNull\<rparr>
      else if packageId = ''./local/shape''
      then Inr \<lparr>moduleDefault = Factory (\<lambda>c. Inr []), moduleConfig = JNull\<rparr>
      else Inl ''module not found'')"

section \<open>The spawn coordinator (core/spawn/src/spawn.ts, spawn)\<close>

text \<open>
  The module keeps \<^verbatim>\<open>promises.all\<close>, the set of the promises in flight, and
  \<^verbatim>\<open>promises.blocking\<close>. A promise is known by a number, given out in the order of the
  requests. Of each promise the model records what \<^verbatim>\<open>Promise.allSettled\<close> was given at
  the request (the promises it awaits), whether it was requested with an inherited stream,
  and how far it is: waiting for what it awaits, running (\<^verbatim>\<open>spawnAsync\<close> has been entered
  and the child started), or settled.

  The event loop runs one callback at a time, so the coordinator is a transition system
  with three kinds of steps: a call of \<^verbatim>\<open>spawn\<close>, whose body runs without interruption;
  the start of a waiting promise, which can happen once everything it awaits has settled;
  and the settling of a running promise, together with its \<^verbatim>\<open>finally\<close> callbacks (they
  are the first reactions registered on the promise, so they run before any other code
  sees it settled).
\<close>

datatype phase = Unrequested | Waiting | Running | Settled

record coordinator =
  all :: "nat set"
  blocking :: "nat option"
  nextPromise :: nat
  awaits :: "nat \<Rightarrow> nat set"
  inherits :: "nat \<Rightarrow> bool"
  phaseOf :: "nat \<Rightarrow> phase"

definition initial :: coordinator where
  "initial =
     \<lparr>all = {}, blocking = None, nextPromise = 0, awaits = (\<lambda>p. {}),
      inherits = (\<lambda>p. False), phaseOf = (\<lambda>p. Unrequested)\<rparr>"

text \<open>\<^verbatim>\<open>options.input === 'inherit' || options.output === 'inherit'\<close>\<close>

definition needsExclusive :: "SpawnOptions \<Rightarrow> bool" where
  "needsExclusive options =
     (inputOpt options = Some InputInherit \<or> outputOpt options = Some OutInherit)"

text \<open>
  The body of \<^verbatim>\<open>spawn\<close>. With an inherited stream the new promise awaits all of
  \<^verbatim>\<open>promises.all\<close> and becomes \<^verbatim>\<open>promises.blocking\<close>; without, it awaits
  \<^verbatim>\<open>promises.blocking\<close> alone (nothing, when that is undefined). In both cases it is
  added to \<^verbatim>\<open>promises.all\<close>.
\<close>

definition spawn :: "SpawnOptions \<Rightarrow> coordinator \<Rightarrow> coordinator" where
  "spawn options s =
     (let promise = nextPromise s in
      if needsExclusive options then
        s\<lparr>all := insert promise (all s),
          blocking := Some promise,
          nextPromise := promise + 1,
          awaits := (awaits s)(promise := all s),
          inherits := (inherits s)(promise := True),
          phaseOf := (phaseOf s)(promise := Waiting)\<rparr>
      else
        s\<lparr>all := insert promise (all s),
          nextPromise := promise + 1,
          awaits := (awaits s)(promise := set_option (blocking s)),
          inherits := (inherits s)(promise := False),
          phaseOf := (phaseOf s)(promise := Waiting)\<rparr>)"

text \<open>
  The \<^verbatim>\<open>finally\<close> callbacks of a promise: one that requested an inherited stream
  clears \<^verbatim>\<open>promises.blocking\<close> if that is still itself; every promise leaves
  \<^verbatim>\<open>promises.all\<close>.
\<close>

definition settle :: "nat \<Rightarrow> coordinator \<Rightarrow> coordinator" where
  "settle promise s =
     s\<lparr>all := all s - {promise},
       blocking := (if inherits s promise \<and> blocking s = Some promise then None else blocking s),
       phaseOf := (phaseOf s)(promise := Settled)\<rparr>"

text \<open>
  The \<^verbatim>\<open>then\<close> callback of a promise runs and enters \<^verbatim>\<open>spawnAsync\<close>: the child starts.
\<close>

definition start :: "nat \<Rightarrow> coordinator \<Rightarrow> coordinator" where
  "start promise s = s\<lparr>phaseOf := (phaseOf s)(promise := Running)\<rparr>"

datatype event = Request SpawnOptions | Start nat | Settle nat

text \<open>A step is \<^term>\<open>None\<close> when the event cannot happen in the state.\<close>

fun step :: "coordinator \<Rightarrow> event \<Rightarrow> coordinator option" where
  "step s (Request options) = Some (spawn options s)"
| "step s (Start p) =
     (if phaseOf s p = Waiting \<and> (\<forall>q \<in> awaits s p. phaseOf s q = Settled)
      then Some (start p s)
      else None)"
| "step s (Settle p) = (if phaseOf s p = Running then Some (settle p s) else None)"

fun run :: "coordinator \<Rightarrow> event list \<Rightarrow> coordinator option" where
  "run s [] = Some s"
| "run s (e # es) = (case step s e of None \<Rightarrow> None | Some s' \<Rightarrow> run s' es)"

text \<open>A request with an inherited stream among the events.\<close>

fun isExclusiveRequest :: "event \<Rightarrow> bool" where
  "isExclusiveRequest (Request options) = needsExclusive options"
| "isExclusiveRequest (Start p) = False"
| "isExclusiveRequest (Settle p) = False"

subsection \<open>What holds in every state the coordinator reaches\<close>

text \<open>
  The promises below \<^verbatim>\<open>nextPromise\<close> are the requested ones; \<^verbatim>\<open>promises.all\<close> holds
  the requested promises that have not settled; a promise that has started awaits
  settled promises only; a promise awaits earlier promises; \<^verbatim>\<open>promises.blocking\<close>
  is a promise with an inherited stream that has not settled; a promise with an
  inherited stream awaits every earlier promise that has not settled; and while such
  a promise has not settled, \<^verbatim>\<open>promises.blocking\<close> is this promise or a later one.
\<close>

definition wellFormed :: "coordinator \<Rightarrow> bool" where
  "wellFormed s =
     ((\<forall>p. p < nextPromise s \<longleftrightarrow> phaseOf s p \<noteq> Unrequested)
      \<and> all s = {p. p < nextPromise s \<and> phaseOf s p \<noteq> Settled}
      \<and> (\<forall>p. phaseOf s p = Running \<or> phaseOf s p = Settled \<longrightarrow>
             (\<forall>q \<in> awaits s p. phaseOf s q = Settled))
      \<and> (\<forall>p. p < nextPromise s \<longrightarrow> (\<forall>q \<in> awaits s p. q < p))
      \<and> (\<forall>b. blocking s = Some b \<longrightarrow>
             b < nextPromise s \<and> inherits s b \<and> phaseOf s b \<noteq> Settled)
      \<and> (\<forall>q p. q < nextPromise s \<and> inherits s q \<and> p < q \<and> phaseOf s p \<noteq> Settled \<longrightarrow>
             p \<in> awaits s q)
      \<and> (\<forall>p. p < nextPromise s \<and> inherits s p \<and> phaseOf s p \<noteq> Settled \<longrightarrow>
             (\<exists>b. blocking s = Some b \<and> p \<le> b)))"

subsection \<open>Example requests\<close>

definition pipedOptions :: SpawnOptions where
  "pipedOptions =
     \<lparr>cwd = None, env = None, paths = None, inputOpt = None, outputOpt = Some OutEcho,
      logCommand = None, allowNonZeroExitCode = None\<rparr>"

definition terminalOptions :: SpawnOptions where
  "terminalOptions =
     \<lparr>cwd = None, env = None, paths = None, inputOpt = None, outputOpt = Some OutInherit,
      logCommand = None, allowNonZeroExitCode = None\<rparr>"

text \<open>
  Two piped spawns are requested and started; then a spawn on the terminal is requested.
  Later the two settle, the terminal spawn starts, and one more piped spawn is requested.
\<close>

definition earlierEvents :: "event list" where
  "earlierEvents = [Request pipedOptions, Request pipedOptions, Start 0, Start 1]"

definition laterEvents :: "event list" where
  "laterEvents = [Settle 0, Settle 1, Start 2, Request pipedOptions]"

text \<open>A terminal spawn is requested and started; then a second one is requested.\<close>

definition overtakingEvents :: "event list" where
  "overtakingEvents = [Request terminalOptions, Start 0, Request terminalOptions]"

section \<open>Theorems\<close>

subsection \<open>The environment of the child\<close>

lemma truthy_Some_filter: "map the (filter truthy (map Some xs)) = filter (\<lambda>s. s \<noteq> []) xs"
  by (induction xs) auto

text \<open>
  Claim C1, as amended. The \<^verbatim>\<open>PATH\<close> presented to the child is composed of, in order:
  the directory of the runtime executable, the local bin path computed for the working
  directory, the inherited or overridden \<^verbatim>\<open>PATH\<close> (the caller's \<^verbatim>\<open>env.PATH\<close> when the
  caller gives an environment that defines it, the process's otherwise), and then the
  caller's \<^verbatim>\<open>paths\<close> entries. An entry that is undefined or the empty string is
  dropped, and the entries that remain are joined with the path delimiter as they are.
\<close>

theorem child_PATH_composition:
  "childEnv dirname npmRunPath delimiter execPath processEnv options ''PATH'' =
     Some (join delimiter
       (filter (\<lambda>s. s \<noteq> [])
          ([dirname execPath, npmRunPath (cwd options)]
           @ (case (case env options of None \<Rightarrow> None | Some e \<Rightarrow> e ''PATH'') of
                Some p \<Rightarrow> [p]
              | None \<Rightarrow> (case processEnv ''PATH'' of None \<Rightarrow> [] | Some p \<Rightarrow> [p]))
           @ (case paths options of None \<Rightarrow> [] | Some ps \<Rightarrow> ps))))"
proof -
  have inh: "(case inheritedPATH processEnv options of None \<Rightarrow> [] | Some p \<Rightarrow> [p])
        = (case (case env options of None \<Rightarrow> None | Some e \<Rightarrow> e ''PATH'') of
             Some p \<Rightarrow> [p]
           | None \<Rightarrow> (case processEnv ''PATH'' of None \<Rightarrow> [] | Some p \<Rightarrow> [p]))"
    by (simp add: inheritedPATH_def split: option.splits)
  have "map the (filter truthy (pathSegments dirname npmRunPath execPath processEnv options))
        = filter (\<lambda>s. s \<noteq> [])
          ([dirname execPath, npmRunPath (cwd options)]
           @ (case inheritedPATH processEnv options of None \<Rightarrow> [] | Some p \<Rightarrow> [p])
           @ optPaths options)"
    by (cases "inheritedPATH processEnv options")
       (simp_all add: pathSegments_def truthy_Some_filter)
  then show ?thesis
    unfolding inh by (simp add: childEnv_def childPATH_def optPaths_def)
qed

theorem child_PATH_composition_witness:
  "childEnv exampleDirname exampleRunPath '':'' ''/usr/local/bin/node'' exampleProcessEnv
      exampleOptions ''PATH''
     = Some ''/usr/local/bin:/w/node_modules/.bin:/usr/bin:/extra''
   \<and> childEnv exampleDirname exampleRunPath '':'' ''/usr/local/bin/node'' exampleProcessEnv
      overridingOptions ''PATH''
     = Some ''/usr/local/bin:/w/node_modules/.bin:/opt/bin:/extra''
   \<and> childEnv exampleDirname exampleRunPath '';'' ''/usr/local/bin/node'' exampleProcessEnv
      unnamedPathOptions ''PATH''
     = Some ''/usr/local/bin;node_modules/.bin;/usr/bin''
   \<and> childEnv exampleDirname exampleRunPath '':'' ''/usr/local/bin/node'' Map.empty
      unnamedPathOptions ''PATH''
     = Some ''/usr/local/bin:node_modules/.bin''"
  using child_PATH_composition [of exampleDirname exampleRunPath "'':''" "''/usr/local/bin/node''"
      exampleProcessEnv exampleOptions]
    child_PATH_composition [of exampleDirname exampleRunPath "'':''" "''/usr/local/bin/node''"
      exampleProcessEnv overridingOptions]
    child_PATH_composition [of exampleDirname exampleRunPath "'';''" "''/usr/local/bin/node''"
      exampleProcessEnv unnamedPathOptions]
    child_PATH_composition [of exampleDirname exampleRunPath "'':''" "''/usr/local/bin/node''"
      Map.empty unnamedPathOptions]
  by (simp add: exampleDirname_def exampleRunPath_def exampleProcessEnv_def exampleOptions_def
      overridingOptions_def unnamedPathOptions_def)

text \<open>
  Claim C1 as the specification states it fails in two ways. It puts the caller's
  entries before the inherited \<^verbatim>\<open>PATH\<close>: with one caller entry \<^verbatim>\<open>/extra\<close> and the
  inherited \<^verbatim>\<open>/usr/bin\<close> the child's \<^verbatim>\<open>PATH\<close> ends \<^verbatim>\<open>/usr/bin:/extra\<close>, not
  \<^verbatim>\<open>/extra:/usr/bin\<close>. And it has the empty segments removed: with the caller's
  \<^verbatim>\<open>PATH\<close> \<^verbatim>\<open>/usr/bin::/bin\<close> and no caller entries (so that the order plays no part)
  the child's \<^verbatim>\<open>PATH\<close> still holds the empty segment.
\<close>

theorem child_PATH_order_and_segments_counterexample:
  "childEnv exampleDirname exampleRunPath '':'' ''/usr/local/bin/node'' exampleProcessEnv
      exampleOptions ''PATH''
     = Some ''/usr/local/bin:/w/node_modules/.bin:/usr/bin:/extra''
   \<and> specPATH exampleDirname exampleRunPath (CHR '':'') ''/usr/local/bin/node'' exampleProcessEnv
      exampleOptions
     = ''/usr/local/bin:/w/node_modules/.bin:/extra:/usr/bin''
   \<and> childEnv exampleDirname exampleRunPath '':'' ''/usr/local/bin/node'' exampleProcessEnv
      gappedOptions ''PATH''
     = Some ''/usr/local/bin:/w/node_modules/.bin:/usr/bin::/bin''
   \<and> [] \<in> set (splitOn (CHR '':'') ''/usr/local/bin:/w/node_modules/.bin:/usr/bin::/bin'')
   \<and> specPATH exampleDirname exampleRunPath (CHR '':'') ''/usr/local/bin/node'' exampleProcessEnv
      gappedOptions
     = ''/usr/local/bin:/w/node_modules/.bin:/usr/bin:/bin''"
  by (simp add: childEnv_def childPATH_def specPATH_def pathSegments_def inheritedPATH_def
      optPaths_def exampleDirname_def exampleRunPath_def exampleProcessEnv_def exampleOptions_def
      gappedOptions_def)

subsection \<open>The close event\<close>

text \<open>
  Claim C5. When the child closes, a result the promise resolves with has \<^verbatim>\<open>ok\<close> true
  exactly when its exit code is 0 (which is exactly when the child exited with code 0);
  an exit that is not 0 rejects with the exit code error carrying the command, the exit
  code and the signal, unless \<^verbatim>\<open>allowNonZeroExitCode\<close> is set, in which case the promise
  resolves with a result.
\<close>

theorem spawn_result_ok_iff_exit_zero:
  "(\<forall>r. snd (onClose cmd args options dat code signal) = Inr r \<longrightarrow>
        (ok r \<longleftrightarrow> exitCode r = 0) \<and> (ok r \<longleftrightarrow> code = Some 0)
        \<and> exitCode r = (case code of None \<Rightarrow> 1 | Some c \<Rightarrow> c) \<and> signalCode r = signal)
   \<and> (code \<noteq> Some 0 \<and> \<not> optAllowNonZeroExitCode options \<longrightarrow>
        snd (onClose cmd args options dat code signal)
          = Inl (SpawnExitCodeError cmd (case code of None \<Rightarrow> 1 | Some c \<Rightarrow> c) signal))
   \<and> (code = Some 0 \<or> optAllowNonZeroExitCode options \<longrightarrow>
        (\<exists>r. snd (onClose cmd args options dat code signal) = Inr r))"
  by (auto simp: onClose_def Let_def split: option.splits)

theorem spawn_result_ok_iff_exit_zero_witness:
  "snd (onClose ''pnpm'' [''info''] tolerantOptions [(Stdout, ''x'')] (Some 2) None)
     = Inr \<lparr>captured = [(Stdout, ''x'')], exitCode = 2, signalCode = None, ok = False\<rparr>
   \<and> snd (onClose ''pnpm'' [''info''] exampleOptions [(Stdout, ''x'')] (Some 2) None)
     = Inl (SpawnExitCodeError ''pnpm'' 2 None)
   \<and> snd (onClose ''pnpm'' [''info''] exampleOptions [(Stdout, ''x'')] (Some 0) None)
     = Inr \<lparr>captured = [(Stdout, ''x'')], exitCode = 0, signalCode = None, ok = True\<rparr>"
proof -
  have t: "optAllowNonZeroExitCode tolerantOptions" "\<not> optAllowNonZeroExitCode exampleOptions"
    by (simp_all add: optAllowNonZeroExitCode_def tolerantOptions_def exampleOptions_def)
  show ?thesis
    using t
      spawn_result_ok_iff_exit_zero [of "''pnpm''" "[''info'']" tolerantOptions
        "[(Stdout, ''x'')]" "Some 2" None]
      spawn_result_ok_iff_exit_zero [of "''pnpm''" "[''info'']" exampleOptions
        "[(Stdout, ''x'')]" "Some 2" None]
      spawn_result_ok_iff_exit_zero [of "''pnpm''" "[''info'']" exampleOptions
        "[(Stdout, ''x'')]" "Some 0" None]
    by (auto simp: onClose_def)
qed

text \<open>
  Claim C10. A child that closes with a null exit code (it was ended by a signal) is
  treated as having exited with code 1: with \<^verbatim>\<open>allowNonZeroExitCode\<close> the promise
  resolves with a result whose exit code is the number 1 and whose \<^verbatim>\<open>ok\<close> is false, and
  without it the promise rejects with the exit code error for code 1.
\<close>

theorem null_exit_code_is_one:
  "snd (onClose cmd args options dat None signal) =
     (if optAllowNonZeroExitCode options
      then Inr \<lparr>captured = dat, exitCode = 1, signalCode = signal, ok = False\<rparr>
      else Inl (SpawnExitCodeError cmd 1 signal))"
  by (simp add: onClose_def)

theorem null_exit_code_is_one_witness:
  "snd (onClose ''git'' [''status''] tolerantOptions [] None (Some ''SIGTERM''))
     = Inr \<lparr>captured = [], exitCode = 1, signalCode = Some ''SIGTERM'', ok = False\<rparr>
   \<and> snd (onClose ''git'' [''status''] exampleOptions [] None (Some ''SIGTERM''))
     = Inl (SpawnExitCodeError ''git'' 1 (Some ''SIGTERM''))"
  using null_exit_code_is_one [of "''git''" "[''status'']" tolerantOptions "[]" "Some ''SIGTERM''"]
    null_exit_code_is_one [of "''git''" "[''status'']" exampleOptions "[]" "Some ''SIGTERM''"]
  by (simp add: optAllowNonZeroExitCode_def tolerantOptions_def exampleOptions_def)


subsection \<open>The pass, entry by entry\<close>

lemma patched_setPatch:
  "patched (Some (setPatch pp sc n nr)) sc' n' =
     (if sc' = sc \<and> n' = n then Some nr else patched pp sc' n')"
  by (auto simp: patched_def setPatch_def Let_def split: option.splits)

lemma fst_patchEntry:
  "fst (patchEntry sat minV upd strict sc st e) =
     (case entryRange sat minV upd strict e of
        None \<Rightarrow> fst st
      | Some nr \<Rightarrow> Some (setPatch (fst st) sc (fst e) nr))"
  by (auto simp: patchEntry_def entryRange_def Let_def split: option.splits)

lemma patched_patchEntry:
  "patched (fst (patchEntry sat minV upd strict sc st e)) sc' n' =
     (case entryRange sat minV upd strict e of
        None \<Rightarrow> patched (fst st) sc' n'
      | Some nr \<Rightarrow> if sc' = sc \<and> n' = fst e then Some nr else patched (fst st) sc' n')"
  by (simp add: fst_patchEntry patched_setPatch split: option.splits)

lemma patched_entries_other:
  "sc' \<noteq> sc \<or> n' \<notin> fst ` set es \<Longrightarrow>
   patched (fst (foldl (patchEntry sat minV upd strict sc) st es)) sc' n' = patched (fst st) sc' n'"
proof (induction es arbitrary: st)
  case Nil
  then show ?case by simp
next
  case (Cons e es)
  have "patched (fst (patchEntry sat minV upd strict sc st e)) sc' n' = patched (fst st) sc' n'"
    using Cons.prems by (auto simp: patched_patchEntry split: option.splits)
  moreover have "sc' \<noteq> sc \<or> n' \<notin> fst ` set es"
    using Cons.prems by auto
  ultimately show ?case
    using Cons.IH by simp
qed

lemma patched_entries_member:
  "distinct (map fst es) \<Longrightarrow> (n, r) \<in> set es \<Longrightarrow>
   patched (fst (foldl (patchEntry sat minV upd strict sc) st es)) sc n =
     (case entryRange sat minV upd strict (n, r) of
        None \<Rightarrow> patched (fst st) sc n
      | Some nr \<Rightarrow> Some nr)"
proof (induction es arbitrary: st)
  case Nil
  then show ?case by simp
next
  case (Cons e es)
  show ?case
  proof (cases "e = (n, r)")
    case True
    then have "n \<notin> fst ` set es"
      using Cons.prems(1) by auto
    then have "patched (fst (foldl (patchEntry sat minV upd strict sc) (patchEntry sat minV upd strict sc st e) es)) sc n
               = patched (fst (patchEntry sat minV upd strict sc st e)) sc n"
      by (simp add: patched_entries_other)
    then show ?thesis
      using True by (simp add: patched_patchEntry split: option.splits)
  next
    case False
    then have mem: "(n, r) \<in> set es" and dist: "distinct (map fst es)" and ne: "fst e \<noteq> n"
      using Cons.prems by (auto simp: image_iff)
    have "patched (fst (patchEntry sat minV upd strict sc st e)) sc n = patched (fst st) sc n"
      using ne by (auto simp: patched_patchEntry split: option.splits)
    then show ?thesis
      using Cons.IH [OF dist mem, of "patchEntry sat minV upd strict sc st e"]
      by (simp split: option.splits)
  qed
qed

lemma patched_scopes_other:
  "sc \<notin> set scs \<Longrightarrow>
   patched (fst (foldl (patchScope sat minV upd strict ws) st scs)) sc n = patched (fst st) sc n"
  by (induction scs arbitrary: st) (auto simp: patchScope_def patched_entries_other)

lemma patched_scopes_member:
  "distinct scs \<Longrightarrow> sc \<in> set scs \<Longrightarrow> distinct (map fst (ws sc)) \<Longrightarrow> (n, r) \<in> set (ws sc) \<Longrightarrow>
   patched (fst (foldl (patchScope sat minV upd strict ws) st scs)) sc n =
     (case entryRange sat minV upd strict (n, r) of
        None \<Rightarrow> patched (fst st) sc n
      | Some nr \<Rightarrow> Some nr)"
proof (induction scs arbitrary: st)
  case Nil
  then show ?case by simp
next
  case (Cons s scs)
  show ?case
  proof (cases "s = sc")
    case True
    then have "sc \<notin> set scs" using Cons.prems(1) by auto
    then have "patched (fst (foldl (patchScope sat minV upd strict ws) (patchScope sat minV upd strict ws st s) scs)) sc n
               = patched (fst (patchScope sat minV upd strict ws st s)) sc n"
      by (rule patched_scopes_other)
    also have "\<dots> = (case entryRange sat minV upd strict (n, r) of
        None \<Rightarrow> patched (fst st) sc n
      | Some nr \<Rightarrow> Some nr)"
      using True Cons.prems(3,4) by (simp add: patchScope_def patched_entries_member)
    finally show ?thesis by simp
  next
    case False
    then have "sc \<in> set scs" "distinct scs" using Cons.prems by auto
    moreover have "patched (fst (patchScope sat minV upd strict ws st s)) sc n = patched (fst st) sc n"
      using False by (simp add: patchScope_def patched_entries_other)
    ultimately show ?thesis
      using Cons.IH [of "patchScope sat minV upd strict ws st s"] Cons.prems(3,4)
      by (simp split: option.splits)
  qed
qed

lemma patched_None: "patched None sc n = None"
  by (simp add: patched_def)

lemma scope_in_scopes: "sc \<in> set scopes"
  by (cases sc) (simp_all add: scopes_def)

lemma distinct_scopes: "distinct scopes"
  by (simp add: scopes_def)

lemma getUpdatePatches_entry:
  "distinct (map fst (ws sc)) \<Longrightarrow> (n, r) \<in> set (ws sc) \<Longrightarrow>
   patched (fst (getUpdatePatches sat minV upd strict ws)) sc n = entryRange sat minV upd strict (n, r)"
  unfolding getUpdatePatches_def
  by (simp add: patched_scopes_member [OF distinct_scopes scope_in_scopes] patched_None split: option.splits)

subsection \<open>The prefix of a range\<close>

lemma startsWith_iff: "startsWith p s \<longleftrightarrow> (\<exists>rest. s = p @ rest)"
  unfolding startsWith_def
  by (metis append_eq_conv_conj append_take_drop_id)

lemma digits1_Some_hd: "digits1 s = Some r \<Longrightarrow> s \<noteq> [] \<and> isDigit (hd s)"
  by (cases s) (auto simp: digits1_def split: if_splits)

lemma matchVersion_hd: "matchVersion s \<Longrightarrow> s \<noteq> [] \<and> isDigit (hd s)"
  by (auto simp: matchVersion_def split: option.splits dest: digits1_Some_hd)

lemma matchVersion_not_op: "matchVersion (c # s) \<Longrightarrow> c \<notin> set ''=^~>''"
  by (drule matchVersion_hd) (auto simp: isDigit_def)

lemma rangePrefix_operator:
  assumes "p \<in> set operators" "matchVersion rest"
  shows "rangePrefix (p @ rest) = p"
proof -
  obtain d rest' where rest: "rest = d # rest'" "isDigit d"
    using matchVersion_hd [OF assms(2)] by (cases rest) auto
  then have d: "d \<noteq> CHR ''=''" by (auto simp: isDigit_def)
  consider "p = ''=''" | "p = ''^''" | "p = ''~''" | "p = ''>''" | "p = ''>=''"
    using assms(1) by (auto simp: operators_def)
  then show ?thesis
  proof cases
    case 4
    then show ?thesis
      using assms(2) d unfolding rest(1)
      by (simp add: rangePrefix_def matchRange_def prefixCandidates_def)
  qed (use assms(2) in \<open>simp_all add: rangePrefix_def matchRange_def prefixCandidates_def\<close>)
qed

lemma prefixCandidates_sound:
  "(Some p, rest) \<in> set (prefixCandidates s) \<Longrightarrow> s = p @ rest \<and> p \<in> set operators"
  by (auto simp: prefixCandidates_def operators_def split: list.splits if_splits)

lemma matchRange_Some_Some:
  assumes "matchRange s = Some (Some p)"
  shows "\<exists>rest. s = p @ rest \<and> p \<in> set operators \<and> matchVersion rest"
proof -
  obtain c cs where f: "filter (\<lambda>c. matchVersion (snd c)) (prefixCandidates s) = c # cs" "fst c = Some p"
    using assms by (auto simp: matchRange_def split: list.splits)
  then have "c \<in> set (filter (\<lambda>c. matchVersion (snd c)) (prefixCandidates s))" by simp
  then have "c \<in> set (prefixCandidates s)" "matchVersion (snd c)" by auto
  moreover have "c = (Some p, snd c)" using f(2) by (cases c) simp
  ultimately show ?thesis
    using prefixCandidates_sound [of p "snd c" s] by auto
qed

lemma rangePrefix_default:
  assumes "\<not> (\<exists>p rest. p \<in> set operators \<and> r = p @ rest \<and> matchVersion rest)"
  shows "rangePrefix r = ''^''"
proof (cases "matchRange r")
  case None
  then show ?thesis by (simp add: rangePrefix_def)
next
  case (Some g)
  show ?thesis
  proof (cases g)
    case None
    with Some show ?thesis by (simp add: rangePrefix_def)
  next
    case (Some p)
    with \<open>matchRange r = Some g\<close> assms matchRange_Some_Some [of r p] show ?thesis by blast
  qed
qed

lemma rangePrefix_bare: "matchVersion r \<Longrightarrow> rangePrefix r = ''^''"
proof (rule rangePrefix_default, rule notI)
  assume mv: "matchVersion r" and "\<exists>p rest. p \<in> set operators \<and> r = p @ rest \<and> matchVersion rest"
  then obtain p rest where "p \<in> set operators" "r = p @ rest" by blast
  then obtain c cs where "r = c # cs" "c \<in> set ''=^~>''"
    by (auto simp: operators_def)
  then show False using matchVersion_not_op mv by blast
qed

subsection \<open>The claims about the range pass\<close>

text \<open>
  Claim C6. An entry (of a manifest whose dependency names are distinct within a scope)
  whose recorded range is exactly \<^verbatim>\<open>*\<close> or \<^verbatim>\<open>x\<close>, or begins with \<^verbatim>\<open>file:\<close>, gets
  no entry in the patch, whatever the new version of the dependency and whether or not
  the pass is strict: its range stays as it is.
\<close>

theorem unmanaged_ranges_never_patched:
  assumes "distinct (map fst (ws sc))"
    and "(n, r) \<in> set (ws sc)"
    and "r = ''*'' \<or> r = ''x'' \<or> (\<exists>rest. r = ''file:'' @ rest)"
  shows "patched (fst (getUpdatePatches sat minV upd strict ws)) sc n = None
         \<and> rangeAfter (fst (getUpdatePatches sat minV upd strict ws)) sc n r = r"
proof -
  have "entryRange sat minV upd strict (n, r) = None"
    using assms(3) by (auto simp: entryRange_def startsWith_iff split: option.splits)
  then have "patched (fst (getUpdatePatches sat minV upd strict ws)) sc n = None"
    using getUpdatePatches_entry [where ws = ws and sc = sc, OF assms(1,2)] by simp
  then show ?thesis by (simp add: rangeAfter_def)
qed

theorem unmanaged_ranges_never_patched_witness:
  "distinct (map fst (exampleWorkspace dependencies))
   \<and> (''b'', ''file:../b'') \<in> set (exampleWorkspace dependencies)
   \<and> patched (fst (getUpdatePatches semverSatisfies semverMinVersion exampleUpdates True exampleWorkspace))
        dependencies ''b'' = None
   \<and> patched (fst (getUpdatePatches semverSatisfies semverMinVersion exampleUpdates True exampleWorkspace))
        dependencies ''c'' = Some ''^1.5.0''"
proof -
  have d: "distinct (map fst (exampleWorkspace dependencies))"
    by (simp add: exampleWorkspace_def)
  have m: "(''b'', ''file:../b'') \<in> set (exampleWorkspace dependencies)"
    by (simp add: exampleWorkspace_def)
  have f: "''file:../b'' = ''*'' \<or> ''file:../b'' = ''x'' \<or> (\<exists>rest. ''file:../b'' = ''file:'' @ rest)"
    by simp
  have c: "patched (fst (getUpdatePatches semverSatisfies semverMinVersion exampleUpdates True exampleWorkspace))
        dependencies ''c'' = Some ''^1.5.0''"
    by code_simp
  show ?thesis
    using unmanaged_ranges_never_patched [where ws = exampleWorkspace and sc = dependencies, OF d m f,
        of semverSatisfies semverMinVersion exampleUpdates True] d m c
    by simp
qed

text \<open>
  Claim C2. Take an entry the pass processes: its dependency has a new version, and that
  version satisfies the recorded range and also the range made of \<^verbatim>\<open>~\<close> and the
  recorded range's minimum version. With strict mode off the patch has no entry for it
  and the range is left unchanged. With strict mode on, for an entry that reaches the
  churn test (the ranges \<^verbatim>\<open>*\<close>, \<^verbatim>\<open>x\<close> and \<^verbatim>\<open>file:\<close> are skipped before it and never
  managed), the range after the pass is the rewritten range, the prefix followed by the
  new version, recorded in the patch whenever it differs from the range already there.
\<close>

theorem churn_suppressed_unless_strict:
  assumes "distinct (map fst (ws sc))"
    and "(n, r) \<in> set (ws sc)"
    and "upd n = Some v"
    and "sat v r"
    and "sat v (''~'' @ showMinVersion (minV r))"
  shows "patched (fst (getUpdatePatches sat minV upd False ws)) sc n = None
         \<and> rangeAfter (fst (getUpdatePatches sat minV upd False ws)) sc n r = r
         \<and> (\<not> (r = ''*'' \<or> r = ''x'' \<or> (\<exists>rest. r = ''file:'' @ rest)) \<longrightarrow>
              rangeAfter (fst (getUpdatePatches sat minV upd True ws)) sc n r = rangePrefix r @ v
              \<and> (rangePrefix r @ v \<noteq> r \<longrightarrow>
                   patched (fst (getUpdatePatches sat minV upd True ws)) sc n
                     = Some (rangePrefix r @ v)))"
proof -
  have off: "entryRange sat minV upd False (n, r) = None"
    using assms(3-5) by (simp add: entryRange_def)
  have on: "\<not> (r = ''*'' \<or> r = ''x'' \<or> (\<exists>rest. r = ''file:'' @ rest)) \<Longrightarrow>
            entryRange sat minV upd True (n, r)
              = (if rangePrefix r @ v = r then None else Some (rangePrefix r @ v))"
    using assms(3) by (simp add: entryRange_def startsWith_iff)
  have p: "patched (fst (getUpdatePatches sat minV upd strict ws)) sc n
             = entryRange sat minV upd strict (n, r)" for strict
    using getUpdatePatches_entry [where ws = ws and sc = sc, OF assms(1,2)] by simp
  show ?thesis
    using off on by (auto simp: p rangeAfter_def)
qed

theorem churn_suppressed_unless_strict_witness:
  "distinct (map fst (churnWorkspace dependencies))
   \<and> (''a'', ''^1.2.0'') \<in> set (churnWorkspace dependencies)
   \<and> churnUpdates ''a'' = Some ''1.2.5''
   \<and> semverSatisfies ''1.2.5'' ''^1.2.0''
   \<and> semverSatisfies ''1.2.5'' (''~'' @ showMinVersion (semverMinVersion ''^1.2.0''))
   \<and> patched (fst (getUpdatePatches semverSatisfies semverMinVersion churnUpdates False churnWorkspace))
        dependencies ''a'' = None
   \<and> patched (fst (getUpdatePatches semverSatisfies semverMinVersion churnUpdates True churnWorkspace))
        dependencies ''a'' = Some ''^1.2.5''"
proof -
  have d: "distinct (map fst (churnWorkspace dependencies))"
    by (simp add: churnWorkspace_def)
  have m: "(''a'', ''^1.2.0'') \<in> set (churnWorkspace dependencies)"
    by (simp add: churnWorkspace_def)
  have u: "churnUpdates ''a'' = Some ''1.2.5''"
    by (simp add: churnUpdates_def)
  have s1: "semverSatisfies ''1.2.5'' ''^1.2.0''"
    by code_simp
  have s2: "semverSatisfies ''1.2.5'' (''~'' @ showMinVersion (semverMinVersion ''^1.2.0''))"
    by code_simp
  have managed: "\<not> (''^1.2.0'' = ''*'' \<or> ''^1.2.0'' = ''x'' \<or> (\<exists>rest. ''^1.2.0'' = ''file:'' @ rest))"
    by simp
  have pre: "rangePrefix ''^1.2.0'' @ ''1.2.5'' = ''^1.2.5''"
    by code_simp
  show ?thesis
    using churn_suppressed_unless_strict [where ws = churnWorkspace and sc = dependencies
        and sat = semverSatisfies and minV = semverMinVersion and upd = churnUpdates
        and n = "''a''" and r = "''^1.2.0''" and v = "''1.2.5''", OF d m u s1 s2] d m u s1 s2 managed pre
    by simp
qed

text \<open>
  Claim C3. The range the patch records for an entry is the prefix of the recorded range
  followed by the dependency's new version. The prefix is the operator (\<^verbatim>\<open>=\<close>, \<^verbatim>\<open>^\<close>,
  \<^verbatim>\<open>~\<close>, \<^verbatim>\<open>>\<close> or \<^verbatim>\<open>>=\<close>) in front of a bare or partial version, and it is \<^verbatim>\<open>^\<close>
  whenever the recorded range is not such an operator in front of such a version (in
  particular when it is a bare version).
\<close>

theorem replacement_is_prefix_and_version:
  "(distinct (map fst (ws sc)) \<and> (n, r) \<in> set (ws sc)
      \<and> patched (fst (getUpdatePatches sat minV upd strict ws)) sc n = Some nr
    \<longrightarrow> (\<exists>v. upd n = Some v \<and> nr = rangePrefix r @ v))
   \<and> (p \<in> set [''='', ''^'', ''~'', ''>'', ''>=''] \<and> matchVersion rest \<longrightarrow> rangePrefix (p @ rest) = p)
   \<and> (\<not> (\<exists>q rest'. q \<in> set [''='', ''^'', ''~'', ''>'', ''>=''] \<and> r = q @ rest' \<and> matchVersion rest')
        \<longrightarrow> rangePrefix r = ''^'')"
proof (intro conjI impI)
  assume a: "distinct (map fst (ws sc)) \<and> (n, r) \<in> set (ws sc)
      \<and> patched (fst (getUpdatePatches sat minV upd strict ws)) sc n = Some nr"
  then have "entryRange sat minV upd strict (n, r) = Some nr"
    using getUpdatePatches_entry [where ws = ws and sc = sc and n = n and r = r] by simp
  then show "\<exists>v. upd n = Some v \<and> nr = rangePrefix r @ v"
    by (auto simp: entryRange_def split: option.splits if_splits)
next
  assume "p \<in> set [''='', ''^'', ''~'', ''>'', ''>=''] \<and> matchVersion rest"
  then show "rangePrefix (p @ rest) = p"
    using rangePrefix_operator [of p rest] by (simp add: operators_def)
next
  assume "\<not> (\<exists>q rest'. q \<in> set [''='', ''^'', ''~'', ''>'', ''>=''] \<and> r = q @ rest' \<and> matchVersion rest')"
  then show "rangePrefix r = ''^''"
    using rangePrefix_default [of r] by (simp add: operators_def)
qed

theorem replacement_is_prefix_and_version_witness:
  "map (patched (fst (getUpdatePatches semverSatisfies semverMinVersion prefixUpdates False prefixWorkspace))
          dependencies) [''a'', ''b'', ''c'', ''d'']
     = [Some ''^1.5.0'', Some ''~1.5.0'', Some ''>=1.5.0'', Some ''^1.5.0'']
   \<and> matchVersion ''1.2.3'' \<and> rangePrefix ''>=1.2.3'' = ''>=''
   \<and> rangePrefix ''<1.2.3'' = ''^'' \<and> rangePrefix ''1.2'' = ''^''"
proof -
  have d: "distinct (map fst (prefixWorkspace dependencies))"
    by (simp add: prefixWorkspace_def)
  have m: "(''c'', ''>=1.2.3'') \<in> set (prefixWorkspace dependencies)"
    by (simp add: prefixWorkspace_def)
  have e: "map (patched (fst (getUpdatePatches semverSatisfies semverMinVersion prefixUpdates False prefixWorkspace))
          dependencies) [''a'', ''b'', ''c'', ''d'']
     = [Some ''^1.5.0'', Some ''~1.5.0'', Some ''>=1.5.0'', Some ''^1.5.0'']"
    by code_simp
  have v: "matchVersion ''1.2.3''" by code_simp
  have o: "''>='' \<in> set [''='', ''^'', ''~'', ''>'', ''>='']" by simp
  have x: "rangePrefix ''<1.2.3'' = ''^''" "rangePrefix ''1.2'' = ''^''" by code_simp+
  show ?thesis
    using replacement_is_prefix_and_version [where ws = prefixWorkspace and sc = dependencies
        and n = "''c''" and r = "''>=1.2.3''" and nr = "''>=1.5.0''" and p = "''>=''" and rest = "''1.2.3''"
        and sat = semverSatisfies and minV = semverMinVersion and upd = prefixUpdates and strict = False]
      d m e v o x
    by simp
qed

subsection \<open>The bump strategy\<close>

text \<open>
  Claim C7. For a workspace whose version is absent, \<^verbatim>\<open>bump\<close> is a no-op for every
  release type and with or without a prerelease identifier: it does not throw, it writes
  the debug line, and it returns the config as it was (document and modified flag).
\<close>

theorem bump_without_version_is_noop:
  "version workspace = None \<Longrightarrow>
   bump inc workspace options = Inr ([''skipping workspace (no version)''], config workspace)"
  by (simp add: bump_def)

theorem bump_without_version_is_noop_witness:
  "version unversionedWorkspace = None
   \<and> bump exampleInc unversionedWorkspace \<lparr>releaseType = premajor, preid = Some ''beta''\<rparr>
       = Inr ([''skipping workspace (no version)''],
              \<lparr>document = JObj [(''name'', JStr ''root''), (''private'', JBool True)],
               isModified = False\<rparr>)
   \<and> bump exampleInc versionedWorkspace \<lparr>releaseType = minor, preid = None\<rparr>
       = Inr ([], \<lparr>document = JObj [(''name'', JStr ''a''), (''version'', JStr ''1.1.0'')],
                   isModified = True\<rparr>)"
proof -
  have v: "version unversionedWorkspace = None"
    by (simp add: unversionedWorkspace_def)
  have m: "bump exampleInc versionedWorkspace \<lparr>releaseType = minor, preid = None\<rparr>
       = Inr ([], \<lparr>document = JObj [(''name'', JStr ''a''), (''version'', JStr ''1.1.0'')],
                   isModified = True\<rparr>)"
    by code_simp
  show ?thesis
    using bump_without_version_is_noop [OF v, of exampleInc "\<lparr>releaseType = premajor, preid = Some ''beta''\<rparr>"] v m
    by (simp add: unversionedWorkspace_def)
qed

subsection \<open>The published version\<close>

lemma insertBy_set: "set (insertBy cmp x ys) = insert x (set ys)"
  by (induction ys) auto

lemma sortBy_set: "set (sortBy cmp xs) = set xs"
  unfolding sortBy_def by (induction xs) (auto simp: insertBy_set)

lemma insertBy_not_Nil: "insertBy cmp x ys \<noteq> []"
  by (cases ys) auto

lemma sortBy_Nil_iff: "sortBy cmp xs = [] \<longleftrightarrow> xs = []"
  unfolding sortBy_def by (cases xs) (auto simp: insertBy_not_Nil)

text \<open>The head of the sorted list does not compare greater than any element.\<close>

lemma insertBy_hd_least:
  assumes total: "\<And>a b. a \<in> S \<Longrightarrow> b \<in> S \<Longrightarrow> cmp a b \<le> 0 \<or> cmp b a \<le> 0"
    and trans: "\<And>a b c. a \<in> S \<Longrightarrow> b \<in> S \<Longrightarrow> c \<in> S \<Longrightarrow> cmp a b \<le> 0 \<Longrightarrow> cmp b c \<le> 0 \<Longrightarrow> cmp a c \<le> 0"
    and "x \<in> S" "set ys \<subseteq> S"
    and "ys \<noteq> [] \<Longrightarrow> \<forall>e \<in> set ys. cmp (hd ys) e \<le> 0"
  shows "\<forall>e \<in> set (insertBy cmp x ys). cmp (hd (insertBy cmp x ys)) e \<le> 0"
proof (cases ys)
  case Nil
  then show ?thesis using total [OF assms(3) assms(3)] by simp
next
  case (Cons y ys')
  then have y: "y \<in> S" and least: "\<forall>e \<in> set ys. cmp y e \<le> 0"
    using assms(4,5) by auto
  show ?thesis
  proof (cases "cmp x y \<le> 0")
    case True
    then have "\<forall>e \<in> set ys. cmp x e \<le> 0"
      using least trans [OF assms(3) y] assms(4) by blast
    moreover have "cmp x x \<le> 0" using total [OF assms(3) assms(3)] by simp
    ultimately show ?thesis using True Cons by simp
  next
    case False
    then have "cmp y x \<le> 0" using total [OF assms(3) y] by auto
    then show ?thesis using False Cons least by (auto simp: insertBy_set)
  qed
qed

lemma sortBy_Cons: "sortBy cmp (x # xs) = insertBy cmp x (sortBy cmp xs)"
  by (simp add: sortBy_def)

lemma sortBy_hd_least:
  assumes total: "\<And>a b. a \<in> S \<Longrightarrow> b \<in> S \<Longrightarrow> cmp a b \<le> 0 \<or> cmp b a \<le> 0"
    and trans: "\<And>a b c. a \<in> S \<Longrightarrow> b \<in> S \<Longrightarrow> c \<in> S \<Longrightarrow> cmp a b \<le> 0 \<Longrightarrow> cmp b c \<le> 0 \<Longrightarrow> cmp a c \<le> 0"
    and "set xs \<subseteq> S" "xs \<noteq> []"
  shows "\<forall>e \<in> set xs. cmp (hd (sortBy cmp xs)) e \<le> 0"
  using assms(3,4)
proof (induction xs)
  case Nil
  then show ?case by simp
next
  case (Cons x xs)
  have x: "x \<in> S" and sub: "set (sortBy cmp xs) \<subseteq> S"
    using Cons.prems(1) by (auto simp: sortBy_set)
  have ih: "sortBy cmp xs \<noteq> [] \<Longrightarrow> \<forall>e \<in> set (sortBy cmp xs). cmp (hd (sortBy cmp xs)) e \<le> 0"
    using Cons by (auto simp: sortBy_Nil_iff sortBy_set)
  have "\<forall>e \<in> set (insertBy cmp x (sortBy cmp xs)). cmp (hd (insertBy cmp x (sortBy cmp xs))) e \<le> 0"
    using total trans x sub ih by (rule insertBy_hd_least [where S = S])
  then show ?case
    by (simp add: sortBy_Cons insertBy_set sortBy_set)
qed


lemma versions_of_entries:
  "map (\<lambda>e. the (entryVersion e)) (filter (\<lambda>e. entryVersion e \<noteq> None) xs)
     = concat (map (\<lambda>entry. case entry of
                      JObj es \<Rightarrow> (case map_of es ''version'' of Some (JStr v) \<Rightarrow> [v] | _ \<Rightarrow> [])
                    | _ \<Rightarrow> []) xs)"
  by (induction xs)
     (auto simp: entryVersion_def objectGet_def split: json.splits option.splits)

lemma entryVersion_Some:
  "entryVersion e = Some v \<Longrightarrow> \<exists>es. e = JObj es \<and> map_of es ''version'' = Some (JStr v)"
  by (auto simp: entryVersion_def objectGet_def split: json.splits option.splits)

lemma entryGitHead_JObj:
  "entryGitHead (JObj es) = (case map_of es ''gitHead'' of Some (JStr g) \<Rightarrow> Some g | _ \<Rightarrow> None)"
  by (simp add: entryGitHead_def objectGet_def)

lemma toArray_cases: "toArray v = (case v of JArr xs \<Rightarrow> xs | _ \<Rightarrow> [v])"
  by (simp add: toArray_def)

lemma sortBy_single: "sortBy cmp [x] = [x]"
  by (simp add: sortBy_def)

lemma versionLess_asym: "versionLess x y \<Longrightarrow> \<not> versionLess y x"
  by (cases x; cases y) auto

lemma versionLess_total: "\<not> versionLess x y \<Longrightarrow> \<not> versionLess y x \<Longrightarrow> x = y"
  by (cases x; cases y) auto

lemma versionLess_trans: "versionLess x y \<Longrightarrow> versionLess y z \<Longrightarrow> versionLess x z"
  by (cases x; cases y; cases z) auto

lemma semverRcompare_le:
  "parseVersion a = Some x \<Longrightarrow> parseVersion b = Some y \<Longrightarrow>
   semverRcompare a b \<le> 0 \<longleftrightarrow> \<not> versionLess x y"
  by (auto simp: semverRcompare_def dest: versionLess_asym)

lemma semverRcompare_total:
  "\<forall>a b. semverValid a \<and> semverValid b \<longrightarrow> semverRcompare a b \<le> 0 \<or> semverRcompare b a \<le> 0"
  by (auto simp: semverValid_def semverRcompare_le dest: versionLess_asym)

lemma semverRcompare_trans:
  "\<forall>a b c. semverValid a \<and> semverValid b \<and> semverValid c
      \<and> semverRcompare a b \<le> 0 \<and> semverRcompare b c \<le> 0 \<longrightarrow> semverRcompare a c \<le> 0"
proof (intro allI impI)
  fix a b c
  assume h: "semverValid a \<and> semverValid b \<and> semverValid c
      \<and> semverRcompare a b \<le> 0 \<and> semverRcompare b c \<le> 0"
  then obtain x y z where p: "parseVersion a = Some x" "parseVersion b = Some y"
      "parseVersion c = Some z"
    by (auto simp: semverValid_def)
  have n: "\<not> versionLess x y" "\<not> versionLess y z"
    using h p by (simp_all add: semverRcompare_le)
  have "\<not> versionLess x z"
  proof
    assume xz: "versionLess x z"
    show False
    proof (cases "versionLess y x")
      case True
      then show False using xz n(2) versionLess_trans by blast
    next
      case False
      then have "x = y" using n(1) versionLess_total by blast
      then show False using xz n(2) by simp
    qed
  qed
  then show "semverRcompare a c \<le> 0"
    using p by (simp add: semverRcompare_le)
qed

text \<open>
  Claim C8, as amended. The registry query is \<^verbatim>\<open>pnpm info\<close> for the name bounded by
  \<^verbatim>\<open><= upperBound\<close>, run in the root directory with a non-zero exit tolerated. The
  answer is read as an array (a value that is not an array as the array of that one
  value), and its entries with a string version are the objects that have a string
  under \<^verbatim>\<open>version\<close>.

  When the spawn rejects, \<^verbatim>\<open>getPublished\<close> rejects with the same error. When the spawn
  resolves with a result that is not ok, or that has no entry with a string version,
  \<^verbatim>\<open>getPublished\<close> gives null. When it resolves ok with two or more such entries of
  which one has a string that is not a version, \<^verbatim>\<open>getPublished\<close> rejects with the
  library's type error. When it resolves ok with one such entry, or with several whose
  strings are all versions, \<^verbatim>\<open>getPublished\<close> gives one of these entries: its version
  is ordered before or equal to every other's by \<^verbatim>\<open>rcompare\<close>, that is a highest one,
  and the \<^verbatim>\<open>gitHead\<close> is that entry's when it is a string and null otherwise. (The
  library's \<^verbatim>\<open>rcompare\<close> is taken to be a total preorder on the versions.)
\<close>

theorem getPublished_highest_version:
  assumes total: "\<forall>a b. valid a \<and> valid b \<longrightarrow> rcompare a b \<le> 0 \<or> rcompare b a \<le> 0"
    and trans: "\<forall>a b c. valid a \<and> valid b \<and> valid c \<and> rcompare a b \<le> 0 \<and> rcompare b c \<le> 0
                  \<longrightarrow> rcompare a c \<le> 0"
    and query: "outcome = run_pm ''pnpm''
                  [''info'', ''--quiet'', ''--json'', ident @ ''@<='' @ upperBound, ''version'',
                   ''gitHead'']
                  \<lparr>cwd = Some rootDir, env = None, paths = None, inputOpt = None,
                   outputOpt = None, logCommand = None, allowNonZeroExitCode = Some True\<rparr>"
    and array: "array = (case stdoutJson result of JArr xs \<Rightarrow> xs | _ \<Rightarrow> [stdoutJson result])"
    and versions: "versions = concat (map (\<lambda>entry. case entry of
                      JObj es \<Rightarrow> (case map_of es ''version'' of Some (JStr v) \<Rightarrow> [v] | _ \<Rightarrow> [])
                    | _ \<Rightarrow> []) array)"
  shows "(\<forall>e. outcome = Inl e \<longrightarrow>
            getPublished run_pm stdoutJson valid rcompare rootDir ident upperBound
              = Inl (SpawnRejected e))
       \<and> (outcome = Inr result \<longrightarrow>
            (\<not> ok result \<or> versions = [] \<longrightarrow>
               getPublished run_pm stdoutJson valid rcompare rootDir ident upperBound = Inr None)
          \<and> (ok result \<and> 2 \<le> length versions \<and> \<not> list_all valid versions \<longrightarrow>
               getPublished run_pm stdoutJson valid rcompare rootDir ident upperBound
                 = Inl InvalidVersionTypeError)
          \<and> (ok result \<and> versions \<noteq> [] \<and> (length versions = 1 \<or> list_all valid versions) \<longrightarrow>
               (\<exists>es v. JObj es \<in> set array \<and> map_of es ''version'' = Some (JStr v)
                  \<and> getPublished run_pm stdoutJson valid rcompare rootDir ident upperBound
                      = Inr (Some \<lparr>metaVersion = v,
                                   gitHead = (case map_of es ''gitHead'' of
                                                Some (JStr g) \<Rightarrow> Some g | _ \<Rightarrow> None)\<rparr>)
                  \<and> (\<forall>v' \<in> set versions. v' = v \<or> rcompare v v' \<le> 0))))"
proof (intro conjI allI impI)
  let ?G = "getPublished run_pm stdoutJson valid rcompare rootDir ident upperBound"
  let ?es = "versionedEntries (stdoutJson result)"
  let ?ver = "\<lambda>e. the (entryVersion e)"
  let ?cmp = "\<lambda>a b. rcompare (?ver a) (?ver b)"
  have q: "run_pm ''pnpm'' (infoArgs ident upperBound) (infoOptions rootDir) = outcome"
    using query by (simp add: infoArgs_def infoOptions_def)
  have arr: "toArray (stdoutJson result) = array"
    using array by (simp add: toArray_cases)
  have vs: "map ?ver ?es = versions"
    unfolding versionedEntries_def arr versions by (rule versions_of_entries)
  have len: "length ?es = length versions"
    using vs by (metis length_map)
  have allv: "list_all (\<lambda>entry. valid (?ver entry)) ?es = list_all valid versions"
    unfolding vs [symmetric] by (simp add: list_all_iff)
  have sub: "set ?es \<subseteq> set array"
    unfolding versionedEntries_def arr by auto
  {
    fix e
    assume "outcome = Inl e"
    then show "?G = Inl (SpawnRejected e)"
      using q by (simp add: getPublished_def)
  }
  {
    assume o: "outcome = Inr result" and c: "\<not> ok result \<or> versions = []"
    have "?es = []" if "versions = []"
      using that len by simp
    then show "?G = Inr None"
      using q o c by (auto simp: getPublished_def sortBy_def)
  }
  {
    assume o: "outcome = Inr result"
      and c: "ok result \<and> 2 \<le> length versions \<and> \<not> list_all valid versions"
    then show "?G = Inl InvalidVersionTypeError"
      using q len allv by (simp add: getPublished_def Let_def)
  }
  {
    assume o: "outcome = Inr result"
      and c: "ok result \<and> versions \<noteq> [] \<and> (length versions = 1 \<or> list_all valid versions)"
    have ne: "?es \<noteq> []"
      using c len by auto
    have guard: "\<not> (2 \<le> length ?es \<and> \<not> list_all (\<lambda>entry. valid (?ver entry)) ?es)"
      using c len allv by auto
    obtain info rest where srt: "sortBy ?cmp ?es = info # rest"
      using ne sortBy_Nil_iff [of ?cmp ?es] by (cases "sortBy ?cmp ?es") auto
    have mem: "info \<in> set ?es"
      using srt sortBy_set [of ?cmp ?es] by (metis list.set_intros(1))
    then have "entryVersion info \<noteq> None"
      by (simp add: versionedEntries_def)
    then obtain v where v: "entryVersion info = Some v"
      by auto
    then obtain es where es: "info = JObj es" "map_of es ''version'' = Some (JStr v)"
      using entryVersion_Some by blast
    have res: "?G = Inr (Some \<lparr>metaVersion = v,
                                 gitHead = (case map_of es ''gitHead'' of
                                              Some (JStr g) \<Rightarrow> Some g | _ \<Rightarrow> None)\<rparr>)"
      using q o c guard srt v es(1) by (simp add: getPublished_def Let_def entryGitHead_JObj)
    have high: "\<forall>v' \<in> set versions. v' = v \<or> rcompare v v' \<le> 0"
    proof (cases "length versions = 1")
      case True
      then obtain e where e: "?es = [e]"
        using len by (cases ?es) auto
      then have "info = e"
        using srt by (simp add: sortBy_single)
      then have "versions = [v]"
        using vs e v by simp
      then show ?thesis by simp
    next
      case False
      then have av: "\<forall>e \<in> set ?es. valid (?ver e)"
        using c allv by (simp add: list_all_iff)
      have "\<forall>e \<in> set ?es. ?cmp (hd (sortBy ?cmp ?es)) e \<le> 0"
      proof (rule sortBy_hd_least [where S = "set ?es"])
        show "?cmp x y \<le> 0 \<or> ?cmp y x \<le> 0" if "x \<in> set ?es" "y \<in> set ?es" for x y
          using total av that by blast
        show "?cmp x z \<le> 0"
          if "x \<in> set ?es" "y \<in> set ?es" "z \<in> set ?es" "?cmp x y \<le> 0" "?cmp y z \<le> 0"
          for x y z
          using trans av that by blast
        show "set ?es \<subseteq> set ?es" by simp
        show "?es \<noteq> []" by (rule ne)
      qed
      then have "\<forall>e \<in> set ?es. rcompare v (?ver e) \<le> 0"
        using srt v by simp
      then have "\<forall>v' \<in> set (map ?ver ?es). rcompare v v' \<le> 0"
        by simp
      then show ?thesis
        unfolding vs by blast
    qed
    have "JObj es \<in> set array"
      using mem sub es(1) by auto
    then show "\<exists>es v. JObj es \<in> set array \<and> map_of es ''version'' = Some (JStr v)
                  \<and> ?G = Inr (Some \<lparr>metaVersion = v,
                                   gitHead = (case map_of es ''gitHead'' of
                                                Some (JStr g) \<Rightarrow> Some g | _ \<Rightarrow> None)\<rparr>)
                  \<and> (\<forall>v' \<in> set versions. v' = v \<or> rcompare v v' \<le> 0)"
      using es(2) res high by blast
  }
qed

theorem getPublished_highest_version_witness:
  "getPublished registrySpawn registryStdoutJson semverValid semverRcompare ''/repo'' ''pkg'' ''1.5.0''
     = Inr (Some \<lparr>metaVersion = ''1.2.0'', gitHead = Some ''bbb''\<rparr>)
   \<and> getPublished registrySpawn registryStdoutJson semverValid semverRcompare ''/repo'' ''solo'' ''1.0.0''
     = Inr (Some \<lparr>metaVersion = ''0.9.0'', gitHead = None\<rparr>)
   \<and> getPublished registrySpawn registryStdoutJson semverValid semverRcompare ''/repo'' ''none'' ''1.0.0''
     = Inr None"
proof -
  have q1: "Inr registryResult = registrySpawn ''pnpm''
              [''info'', ''--quiet'', ''--json'', ''pkg'' @ ''@<='' @ ''1.5.0'', ''version'', ''gitHead'']
              \<lparr>cwd = Some ''/repo'', env = None, paths = None, inputOpt = None,
               outputOpt = None, logCommand = None, allowNonZeroExitCode = Some True\<rparr>"
    by code_simp
  have a1: "[JObj [(''version'', JStr ''1.0.0''), (''gitHead'', JStr ''aaa'')],
             JObj [(''gitHead'', JStr ''bbb''), (''version'', JStr ''1.2.0'')],
             JObj [(''version'', JNum 3), (''gitHead'', JStr ''zzz'')],
             JNull,
             JObj [(''version'', JStr ''1.1.0''), (''gitHead'', JNum 7)]]
            = (case registryStdoutJson registryResult of
                 JArr xs \<Rightarrow> xs | _ \<Rightarrow> [registryStdoutJson registryResult])"
    by code_simp
  have v1: "[''1.0.0'', ''1.2.0'', ''1.1.0'']
            = concat (map (\<lambda>entry. case entry of
                      JObj es \<Rightarrow> (case map_of es ''version'' of Some (JStr v) \<Rightarrow> [v] | _ \<Rightarrow> [])
                    | _ \<Rightarrow> [])
                [JObj [(''version'', JStr ''1.0.0''), (''gitHead'', JStr ''aaa'')],
                 JObj [(''gitHead'', JStr ''bbb''), (''version'', JStr ''1.2.0'')],
                 JObj [(''version'', JNum 3), (''gitHead'', JStr ''zzz'')],
                 JNull,
                 JObj [(''version'', JStr ''1.1.0''), (''gitHead'', JNum 7)]])"
    by simp
  have ok1: "ok registryResult" "list_all semverValid [''1.0.0'', ''1.2.0'', ''1.1.0'']"
    by code_simp+
  have cmp: "\<not> semverRcompare ''1.0.0'' ''1.2.0'' \<le> 0" "\<not> semverRcompare ''1.1.0'' ''1.2.0'' \<le> 0"
    by code_simp+
  have "\<exists>es v. JObj es \<in> set [JObj [(''version'', JStr ''1.0.0''), (''gitHead'', JStr ''aaa'')],
             JObj [(''gitHead'', JStr ''bbb''), (''version'', JStr ''1.2.0'')],
             JObj [(''version'', JNum 3), (''gitHead'', JStr ''zzz'')],
             JNull,
             JObj [(''version'', JStr ''1.1.0''), (''gitHead'', JNum 7)]]
          \<and> map_of es ''version'' = Some (JStr v)
          \<and> getPublished registrySpawn registryStdoutJson semverValid semverRcompare
               ''/repo'' ''pkg'' ''1.5.0''
             = Inr (Some \<lparr>metaVersion = v,
                          gitHead = (case map_of es ''gitHead'' of
                                       Some (JStr g) \<Rightarrow> Some g | _ \<Rightarrow> None)\<rparr>)
          \<and> (\<forall>v' \<in> set [''1.0.0'', ''1.2.0'', ''1.1.0'']. v' = v \<or> semverRcompare v v' \<le> 0)"
    using getPublished_highest_version [where valid = semverValid and rcompare = semverRcompare and run_pm = registrySpawn
        and stdoutJson = registryStdoutJson and rootDir = "''/repo''"
        and ident = "''pkg''" and upperBound = "''1.5.0''" and outcome = "Inr registryResult"
        and result = registryResult, OF semverRcompare_total semverRcompare_trans q1 a1 v1] ok1
    by simp
  then have r1: "getPublished registrySpawn registryStdoutJson semverValid semverRcompare
               ''/repo'' ''pkg'' ''1.5.0''
             = Inr (Some \<lparr>metaVersion = ''1.2.0'', gitHead = Some ''bbb''\<rparr>)"
    using cmp by auto
  have q2: "Inr soloResult = registrySpawn ''pnpm''
              [''info'', ''--quiet'', ''--json'', ''solo'' @ ''@<='' @ ''1.0.0'', ''version'', ''gitHead'']
              \<lparr>cwd = Some ''/repo'', env = None, paths = None, inputOpt = None,
               outputOpt = None, logCommand = None, allowNonZeroExitCode = Some True\<rparr>"
    by code_simp
  have a2: "[JObj [(''version'', JStr ''0.9.0''), (''gitHead'', JNum 7)]]
            = (case registryStdoutJson soloResult of
                 JArr xs \<Rightarrow> xs | _ \<Rightarrow> [registryStdoutJson soloResult])"
    by code_simp
  have v2: "[''0.9.0'']
            = concat (map (\<lambda>entry. case entry of
                      JObj es \<Rightarrow> (case map_of es ''version'' of Some (JStr v) \<Rightarrow> [v] | _ \<Rightarrow> [])
                    | _ \<Rightarrow> [])
                [JObj [(''version'', JStr ''0.9.0''), (''gitHead'', JNum 7)]])"
    by simp
  have ok2: "ok soloResult"
    by code_simp
  have r2: "getPublished registrySpawn registryStdoutJson semverValid semverRcompare
               ''/repo'' ''solo'' ''1.0.0''
             = Inr (Some \<lparr>metaVersion = ''0.9.0'', gitHead = None\<rparr>)"
    using getPublished_highest_version [where valid = semverValid and rcompare = semverRcompare and run_pm = registrySpawn
        and stdoutJson = registryStdoutJson and rootDir = "''/repo''"
        and ident = "''solo''" and upperBound = "''1.0.0''" and outcome = "Inr soloResult"
        and result = soloResult, OF semverRcompare_total semverRcompare_trans q2 a2 v2] ok2
    by auto
  have q3: "Inr failedResult = registrySpawn ''pnpm''
              [''info'', ''--quiet'', ''--json'', ''none'' @ ''@<='' @ ''1.0.0'', ''version'', ''gitHead'']
              \<lparr>cwd = Some ''/repo'', env = None, paths = None, inputOpt = None,
               outputOpt = None, logCommand = None, allowNonZeroExitCode = Some True\<rparr>"
    by code_simp
  have ok3: "\<not> ok failedResult"
    by code_simp
  have r3: "getPublished registrySpawn registryStdoutJson semverValid semverRcompare
               ''/repo'' ''none'' ''1.0.0'' = Inr None"
    using getPublished_highest_version [where valid = semverValid and rcompare = semverRcompare and run_pm = registrySpawn
        and stdoutJson = registryStdoutJson and rootDir = "''/repo''"
        and ident = "''none''" and upperBound = "''1.0.0''" and outcome = "Inr failedResult"
        and result = failedResult, OF semverRcompare_total semverRcompare_trans q3 refl refl]
      ok3 by simp
  show ?thesis
    using r1 r2 r3 by simp
qed

text \<open>
  Claim C8 as the specification states it gives null whenever the query fails and the
  highest entry whenever there are entries with a string version. On a machine without
  the package manager the query fails to launch and \<^verbatim>\<open>getPublished\<close> rejects; and
  for an answer with the two string versions \<^verbatim>\<open>1.0.0\<close> and \<^verbatim>\<open>not-a-version\<close> it
  rejects with the type error of the comparison.
\<close>

theorem getPublished_rejects_counterexample:
  "getPublished missingSpawn registryStdoutJson semverValid semverRcompare ''/repo'' ''pkg'' ''1.5.0''
     = Inl (SpawnRejected (CommandRequired ''pnpm''))
   \<and> registrySpawn ''pnpm''
        [''info'', ''--quiet'', ''--json'', ''odd@<=1.0.0'', ''version'', ''gitHead'']
        \<lparr>cwd = Some ''/repo'', env = None, paths = None, inputOpt = None,
         outputOpt = None, logCommand = None, allowNonZeroExitCode = Some True\<rparr>
       = Inr oddResult
   \<and> ok oddResult
   \<and> registryStdoutJson oddResult
       = JArr [JObj [(''version'', JStr ''1.0.0'')], JObj [(''version'', JStr ''not-a-version'')]]
   \<and> getPublished registrySpawn registryStdoutJson semverValid semverRcompare ''/repo'' ''odd'' ''1.0.0''
       = Inl InvalidVersionTypeError"
  by code_simp

subsection \<open>Loading command plugins\<close>

lemma snd_loadCommandPlugins:
  "snd (loadCommandPlugins imp isCmd rootDir rootPackage)
     = map the (filter (\<lambda>v. v \<noteq> None)
         (map (\<lambda>packageId. snd (loadCommandPlugin imp isCmd rootDir packageId))
            (packageIds rootPackage)))"
  by (simp add: loadCommandPlugins_def Let_def comp_def)

lemma fst_loadCommandPlugins:
  "fst (loadCommandPlugins imp isCmd rootDir rootPackage)
     = map (\<lambda>packageId. (packageId, fst (loadCommandPlugin imp isCmd rootDir packageId)))
         (packageIds rootPackage)"
  by (simp add: loadCommandPlugins_def Let_def comp_def)

lemma loaded_command_is_returned:
  assumes "packageId \<in> set (packageIds rootPackage)"
    and "snd (loadCommandPlugin imp isCmd rootDir packageId) = Some c"
  shows "c \<in> set (snd (loadCommandPlugins imp isCmd rootDir rootPackage))"
proof -
  have "Some c \<in> set (filter (\<lambda>v. v \<noteq> None)
         (map (\<lambda>packageId. snd (loadCommandPlugin imp isCmd rootDir packageId))
            (packageIds rootPackage)))"
    using assms by (auto simp: image_iff intro: bexI [of _ packageId])
  then have "the (Some c) \<in> the ` set (filter (\<lambda>v. v \<noteq> None)
         (map (\<lambda>packageId. snd (loadCommandPlugin imp isCmd rootDir packageId))
            (packageIds rootPackage)))"
    by (rule imageI)
  then show ?thesis
    by (simp add: snd_loadCommandPlugins)
qed

lemma returned_command_was_loaded:
  assumes "c \<in> set (snd (loadCommandPlugins imp isCmd rootDir rootPackage))"
  shows "\<exists>packageId \<in> set (packageIds rootPackage).
           snd (loadCommandPlugin imp isCmd rootDir packageId) = Some c"
  using assms by (auto simp: snd_loadCommandPlugins)

text \<open>
  Claim C9. \<^verbatim>\<open>loadCommandPlugins\<close> returns exactly the commands of the candidates that
  load, in the order of the candidates. A candidate whose import throws, whose default
  export is not a function, whose factory throws or whose factory returns a value that
  is not a command gives null and at least one error line, and is left out; a candidate
  whose factory returns a command gives that command without an error line, and the
  command is in the returned list whatever the other candidates do.
\<close>

theorem failed_plugins_are_skipped:
  "snd (loadCommandPlugins imp isCmd rootDir rootPackage)
     = map the (filter (\<lambda>v. v \<noteq> None)
         (map (\<lambda>packageId. snd (loadCommandPlugin imp isCmd rootDir packageId))
            (packageIds rootPackage)))
   \<and> fst (loadCommandPlugins imp isCmd rootDir rootPackage)
     = map (\<lambda>packageId. (packageId, fst (loadCommandPlugin imp isCmd rootDir packageId)))
         (packageIds rootPackage)
   \<and> (\<forall>packageId \<in> set (packageIds rootPackage).
        ((\<exists>e. imp packageId rootDir = Inl e)
          \<or> (\<exists>m. imp packageId rootDir = Inr m
                \<and> (moduleDefault m = NotAFunction
                    \<or> (\<exists>f. moduleDefault m = Factory f
                          \<and> ((\<exists>e. f (moduleConfig m) = Inl e)
                              \<or> (\<exists>c. f (moduleConfig m) = Inr c \<and> \<not> isCmd c)))))
         \<longrightarrow> snd (loadCommandPlugin imp isCmd rootDir packageId) = None
             \<and> fst (loadCommandPlugin imp isCmd rootDir packageId) \<noteq> [])
        \<and> (\<forall>m f c. imp packageId rootDir = Inr m \<and> moduleDefault m = Factory f
                    \<and> f (moduleConfig m) = Inr c \<and> isCmd c
            \<longrightarrow> loadCommandPlugin imp isCmd rootDir packageId = ([], Some c)
                \<and> c \<in> set (snd (loadCommandPlugins imp isCmd rootDir rootPackage))))
   \<and> (\<forall>c \<in> set (snd (loadCommandPlugins imp isCmd rootDir rootPackage)).
        \<exists>packageId \<in> set (packageIds rootPackage).
          loadCommandPlugin imp isCmd rootDir packageId = ([], Some c))"
proof (intro conjI ballI impI allI)
  show "snd (loadCommandPlugins imp isCmd rootDir rootPackage)
     = map the (filter (\<lambda>v. v \<noteq> None)
         (map (\<lambda>packageId. snd (loadCommandPlugin imp isCmd rootDir packageId))
            (packageIds rootPackage)))"
    by (rule snd_loadCommandPlugins)
  show "fst (loadCommandPlugins imp isCmd rootDir rootPackage)
     = map (\<lambda>packageId. (packageId, fst (loadCommandPlugin imp isCmd rootDir packageId)))
         (packageIds rootPackage)"
    by (rule fst_loadCommandPlugins)
next
  fix packageId
  assume "(\<exists>e. imp packageId rootDir = Inl e)
          \<or> (\<exists>m. imp packageId rootDir = Inr m
                \<and> (moduleDefault m = NotAFunction
                    \<or> (\<exists>f. moduleDefault m = Factory f
                          \<and> ((\<exists>e. f (moduleConfig m) = Inl e)
                              \<or> (\<exists>c. f (moduleConfig m) = Inr c \<and> \<not> isCmd c)))))"
  then show "snd (loadCommandPlugin imp isCmd rootDir packageId) = None"
    and "fst (loadCommandPlugin imp isCmd rootDir packageId) \<noteq> []"
    by (auto simp: loadCommandPlugin_def)
next
  fix packageId m f c
  assume mem: "packageId \<in> set (packageIds rootPackage)"
    and ok: "imp packageId rootDir = Inr m \<and> moduleDefault m = Factory f
                    \<and> f (moduleConfig m) = Inr c \<and> isCmd c"
  then show l: "loadCommandPlugin imp isCmd rootDir packageId = ([], Some c)"
    by (simp add: loadCommandPlugin_def)
  show "c \<in> set (snd (loadCommandPlugins imp isCmd rootDir rootPackage))"
    using loaded_command_is_returned [OF mem, of imp isCmd rootDir c] l by simp
next
  fix c
  assume a: "c \<in> set (snd (loadCommandPlugins imp isCmd rootDir rootPackage))"
  obtain packageId where p: "packageId \<in> set (packageIds rootPackage)"
      "snd (loadCommandPlugin imp isCmd rootDir packageId) = Some c"
    using returned_command_was_loaded [OF a] by blast
  have "loadCommandPlugin imp isCmd rootDir packageId = ([], Some c)"
    using p(2) by (auto simp: loadCommandPlugin_def split: sum.splits moduleDefault.splits if_splits)
  then show "\<exists>packageId \<in> set (packageIds rootPackage).
          loadCommandPlugin imp isCmd rootDir packageId = ([], Some c)"
    using p(1) by blast
qed

theorem failed_plugins_are_skipped_witness:
  "packageIds pluginRoot
     = [''./local/shape'', ''./local/throws'', ''@acme/werk-command-bad'',
        ''@wurk/command-list'', ''wurk-command-run'']
   \<and> snd (loadCommandPlugins pluginImport pluginIsCommand ''/repo'' pluginRoot) = [''list'', ''run'']
   \<and> map (\<lambda>r. snd r = []) (fst (loadCommandPlugins pluginImport pluginIsCommand ''/repo'' pluginRoot))
       = [False, False, False, True, True]"
proof -
  have ids: "packageIds pluginRoot
     = [''./local/shape'', ''./local/throws'', ''@acme/werk-command-bad'',
        ''@wurk/command-list'', ''wurk-command-run'']"
    by code_simp
  have each: "map (\<lambda>packageId. loadCommandPlugin pluginImport pluginIsCommand ''/repo'' packageId)
       [''./local/shape'', ''./local/throws'', ''@acme/werk-command-bad'',
        ''@wurk/command-list'', ''wurk-command-run'']
     = [([''package '' @ quoted ''./local/shape'' @ '' command factory returned an invalid command''], None),
        ([''loading command package '' @ quoted ''./local/throws'' @ '' threw the following error:'', ''boom''], None),
        ([''package '' @ quoted ''@acme/werk-command-bad'' @ '' does not export a valid command factory''], None),
        ([], Some ''list''), ([], Some ''run'')]"
    by code_simp
  show ?thesis
    using failed_plugins_are_skipped [of pluginImport pluginIsCommand "''/repo''" pluginRoot] ids each
    by simp
qed

subsection \<open>The spawn coordinator\<close>

lemma wellFormed_initial: "wellFormed initial"
  by (simp add: wellFormed_def initial_def)

lemma wfI:
  assumes "\<And>p. p < nextPromise s \<longleftrightarrow> phaseOf s p \<noteq> Unrequested"
    and "all s = {p. p < nextPromise s \<and> phaseOf s p \<noteq> Settled}"
    and "\<And>p q. phaseOf s p = Running \<or> phaseOf s p = Settled \<Longrightarrow> q \<in> awaits s p \<Longrightarrow> phaseOf s q = Settled"
    and "\<And>p q. p < nextPromise s \<Longrightarrow> q \<in> awaits s p \<Longrightarrow> q < p"
    and "\<And>b. blocking s = Some b \<Longrightarrow> b < nextPromise s \<and> inherits s b \<and> phaseOf s b \<noteq> Settled"
    and "\<And>q p. q < nextPromise s \<Longrightarrow> inherits s q \<Longrightarrow> p < q \<Longrightarrow> phaseOf s p \<noteq> Settled \<Longrightarrow> p \<in> awaits s q"
    and "\<And>p. p < nextPromise s \<Longrightarrow> inherits s p \<Longrightarrow> phaseOf s p \<noteq> Settled \<Longrightarrow> \<exists>b. blocking s = Some b \<and> p \<le> b"
  shows "wellFormed s"
  unfolding wellFormed_def using assms by blast

lemma wfD1: "wellFormed s \<Longrightarrow> p < nextPromise s \<longleftrightarrow> phaseOf s p \<noteq> Unrequested"
  unfolding wellFormed_def by blast

lemma wfD2: "wellFormed s \<Longrightarrow> all s = {p. p < nextPromise s \<and> phaseOf s p \<noteq> Settled}"
  unfolding wellFormed_def by blast

lemma wfD3: "wellFormed s \<Longrightarrow> phaseOf s p = Running \<or> phaseOf s p = Settled \<Longrightarrow> q \<in> awaits s p \<Longrightarrow> phaseOf s q = Settled"
  unfolding wellFormed_def by blast

lemma wfD4: "wellFormed s \<Longrightarrow> p < nextPromise s \<Longrightarrow> q \<in> awaits s p \<Longrightarrow> q < p"
  unfolding wellFormed_def by blast

lemma wfD5: "wellFormed s \<Longrightarrow> blocking s = Some b \<Longrightarrow> b < nextPromise s \<and> inherits s b \<and> phaseOf s b \<noteq> Settled"
  unfolding wellFormed_def by blast

lemma wfD6: "wellFormed s \<Longrightarrow> q < nextPromise s \<Longrightarrow> inherits s q \<Longrightarrow> p < q \<Longrightarrow> phaseOf s p \<noteq> Settled \<Longrightarrow> p \<in> awaits s q"
  unfolding wellFormed_def by blast

lemma wfD7: "wellFormed s \<Longrightarrow> p < nextPromise s \<Longrightarrow> inherits s p \<Longrightarrow> phaseOf s p \<noteq> Settled \<Longrightarrow> \<exists>b. blocking s = Some b \<and> p \<le> b"
  unfolding wellFormed_def by blast

lemma spawn_fields:
  "all (spawn options s) = insert (nextPromise s) (all s)"
  "blocking (spawn options s) = (if needsExclusive options then Some (nextPromise s) else blocking s)"
  "nextPromise (spawn options s) = Suc (nextPromise s)"
  "awaits (spawn options s) =
     (awaits s)(nextPromise s := (if needsExclusive options then all s else set_option (blocking s)))"
  "inherits (spawn options s) = (inherits s)(nextPromise s := needsExclusive options)"
  "phaseOf (spawn options s) = (phaseOf s)(nextPromise s := Waiting)"
  by (simp_all add: spawn_def Let_def)

lemma settle_fields:
  "all (settle p s) = all s - {p}"
  "blocking (settle p s) = (if inherits s p \<and> blocking s = Some p then None else blocking s)"
  "nextPromise (settle p s) = nextPromise s"
  "awaits (settle p s) = awaits s"
  "inherits (settle p s) = inherits s"
  "phaseOf (settle p s) = (phaseOf s)(p := Settled)"
  by (simp_all add: settle_def)

lemma wellFormed_spawn:
  assumes wf: "wellFormed s"
  shows "wellFormed (spawn options s)"
proof (rule wfI)
  let ?n = "nextPromise s"
  have fresh: "phaseOf s ?n = Unrequested"
    using wfD1 [OF wf, of ?n] by simp
  show "p < nextPromise (spawn options s) \<longleftrightarrow> phaseOf (spawn options s) p \<noteq> Unrequested" for p
    using wfD1 [OF wf, of p] by (auto simp: spawn_fields less_Suc_eq)
  show "all (spawn options s)
          = {p. p < nextPromise (spawn options s) \<and> phaseOf (spawn options s) p \<noteq> Settled}"
    using wfD2 [OF wf] by (auto simp: spawn_fields less_Suc_eq)
  show "phaseOf (spawn options s) q = Settled"
    if "phaseOf (spawn options s) p = Running \<or> phaseOf (spawn options s) p = Settled"
      "q \<in> awaits (spawn options s) p" for p q
  proof -
    have p: "p \<noteq> ?n" "phaseOf s p = Running \<or> phaseOf s p = Settled" "q \<in> awaits s p"
      using that by (auto simp: spawn_fields split: if_splits)
    then have "phaseOf s q = Settled" using wfD3 [OF wf] by blast
    then show ?thesis using fresh by (auto simp: spawn_fields)
  qed
  show "q < p" if "p < nextPromise (spawn options s)" "q \<in> awaits (spawn options s) p" for p q
  proof (cases "p = ?n")
    case True
    then have "q \<in> all s \<or> blocking s = Some q"
      using that(2) by (auto simp: spawn_fields split: if_splits)
    then show ?thesis
      using True wfD2 [OF wf] wfD5 [OF wf, of q] by auto
  next
    case False
    then show ?thesis
      using that wfD4 [OF wf, of p q] by (auto simp: spawn_fields less_Suc_eq)
  qed
  show "b < nextPromise (spawn options s) \<and> inherits (spawn options s) b
          \<and> phaseOf (spawn options s) b \<noteq> Settled"
    if "blocking (spawn options s) = Some b" for b
    using that wfD5 [OF wf, of b] by (auto simp: spawn_fields split: if_splits)
  show "p \<in> awaits (spawn options s) q"
    if "q < nextPromise (spawn options s)" "inherits (spawn options s) q" "p < q"
      "phaseOf (spawn options s) p \<noteq> Settled" for q p
  proof (cases "q = ?n")
    case True
    then have "needsExclusive options" "p < ?n" "phaseOf s p \<noteq> Settled"
      using that by (auto simp: spawn_fields split: if_splits)
    then show ?thesis
      using True wfD2 [OF wf] by (auto simp: spawn_fields)
  next
    case False
    then have "q < ?n" "inherits s q" "phaseOf s p \<noteq> Settled"
      using that by (auto simp: spawn_fields less_Suc_eq split: if_splits)
    then show ?thesis
      using False that(3) wfD6 [OF wf, of q p] by (auto simp: spawn_fields)
  qed
  show "\<exists>b. blocking (spawn options s) = Some b \<and> p \<le> b"
    if "p < nextPromise (spawn options s)" "inherits (spawn options s) p"
      "phaseOf (spawn options s) p \<noteq> Settled" for p
  proof (cases "needsExclusive options")
    case True
    then show ?thesis using that(1) by (auto simp: spawn_fields)
  next
    case False
    then have "p < ?n" "inherits s p" "phaseOf s p \<noteq> Settled"
      using that by (auto simp: spawn_fields less_Suc_eq split: if_splits)
    then show ?thesis
      using False wfD7 [OF wf, of p] by (auto simp: spawn_fields)
  qed
qed

lemma start_fields:
  "all (start p s) = all s"
  "blocking (start p s) = blocking s"
  "nextPromise (start p s) = nextPromise s"
  "awaits (start p s) = awaits s"
  "inherits (start p s) = inherits s"
  "phaseOf (start p s) = (phaseOf s)(p := Running)"
  by (simp_all add: start_def)

lemma start_unsettled:
  "phaseOf s p = Waiting \<Longrightarrow> phaseOf (start p s) r = Settled \<longleftrightarrow> phaseOf s r = Settled"
  by (cases "r = p") (simp_all add: start_fields)

lemma start_requested:
  "phaseOf s p = Waiting \<Longrightarrow> phaseOf (start p s) r = Unrequested \<longleftrightarrow> phaseOf s r = Unrequested"
  by (cases "r = p") (simp_all add: start_fields)

lemma wellFormed_start:
  assumes wf: "wellFormed s"
    and w: "phaseOf s p = Waiting"
    and a: "\<forall>q \<in> awaits s p. phaseOf s q = Settled"
  shows "wellFormed (start p s)"
proof (rule wfI)
  note st = start_unsettled [OF w] start_requested [OF w]
  show "r < nextPromise (start p s) \<longleftrightarrow> phaseOf (start p s) r \<noteq> Unrequested" for r
    using wfD1 [OF wf, of r] by (simp add: st start_fields(3))
  show "all (start p s) = {r. r < nextPromise (start p s) \<and> phaseOf (start p s) r \<noteq> Settled}"
    using wfD2 [OF wf] by (simp add: st start_fields(1,3))
  show "phaseOf (start p s) q = Settled"
    if "phaseOf (start p s) r = Running \<or> phaseOf (start p s) r = Settled"
      "q \<in> awaits (start p s) r" for r q
  proof -
    have "phaseOf s q = Settled"
    proof (cases "r = p")
      case True
      then show ?thesis using that(2) a by (simp add: start_fields(4))
    next
      case False
      then have "phaseOf s r = Running \<or> phaseOf s r = Settled"
        using that(1) by (simp add: start_fields(6))
      then show ?thesis using that(2) wfD3 [OF wf, of r q] by (simp add: start_fields(4))
    qed
    then show ?thesis by (simp add: st)
  qed
  show "q < r" if "r < nextPromise (start p s)" "q \<in> awaits (start p s) r" for r q
    using that wfD4 [OF wf, of r q] by (simp add: start_fields(3,4))
  show "b < nextPromise (start p s) \<and> inherits (start p s) b \<and> phaseOf (start p s) b \<noteq> Settled"
    if "blocking (start p s) = Some b" for b
    using that wfD5 [OF wf, of b] by (simp add: st start_fields(2,3,5))
  show "r \<in> awaits (start p s) q"
    if "q < nextPromise (start p s)" "inherits (start p s) q" "r < q"
      "phaseOf (start p s) r \<noteq> Settled" for q r
    using that wfD6 [OF wf, of q r] by (simp add: st start_fields(3,4,5))
  show "\<exists>b. blocking (start p s) = Some b \<and> r \<le> b"
    if "r < nextPromise (start p s)" "inherits (start p s) r"
      "phaseOf (start p s) r \<noteq> Settled" for r
    using that wfD7 [OF wf, of r] by (simp add: st start_fields(2,3,5))
qed

lemma wellFormed_settle:
  assumes wf: "wellFormed s"
    and run: "phaseOf s p = Running"
  shows "wellFormed (settle p s)"
proof (rule wfI)
  show "r < nextPromise (settle p s) \<longleftrightarrow> phaseOf (settle p s) r \<noteq> Unrequested" for r
    using wfD1 [OF wf, of r] run by (auto simp: settle_fields)
  show "all (settle p s) = {r. r < nextPromise (settle p s) \<and> phaseOf (settle p s) r \<noteq> Settled}"
    using wfD2 [OF wf] by (auto simp: settle_fields)
  show "phaseOf (settle p s) q = Settled"
    if "phaseOf (settle p s) r = Running \<or> phaseOf (settle p s) r = Settled"
      "q \<in> awaits (settle p s) r" for r q
  proof -
    have "phaseOf s r = Running \<or> phaseOf s r = Settled"
      using that(1) run by (cases "r = p") (auto simp: settle_fields)
    then have "phaseOf s q = Settled"
      using that(2) wfD3 [OF wf, of r q] by (simp add: settle_fields)
    then show ?thesis by (simp add: settle_fields)
  qed
  show "q < r" if "r < nextPromise (settle p s)" "q \<in> awaits (settle p s) r" for r q
    using that wfD4 [OF wf, of r q] by (simp add: settle_fields)
  show "b < nextPromise (settle p s) \<and> inherits (settle p s) b \<and> phaseOf (settle p s) b \<noteq> Settled"
    if "blocking (settle p s) = Some b" for b
  proof -
    have b: "blocking s = Some b" and "\<not> (inherits s p \<and> b = p)"
      using that by (auto simp: settle_fields split: if_splits)
    moreover have "inherits s b"
      using wfD5 [OF wf b] by simp
    ultimately have "b \<noteq> p" by auto
    then show ?thesis
      using wfD5 [OF wf b] by (simp add: settle_fields)
  qed
  show "r \<in> awaits (settle p s) q"
    if "q < nextPromise (settle p s)" "inherits (settle p s) q" "r < q"
      "phaseOf (settle p s) r \<noteq> Settled" for q r
  proof -
    have "phaseOf s r \<noteq> Settled"
      using that(4) by (cases "r = p") (auto simp: settle_fields)
    then show ?thesis
      using that wfD6 [OF wf, of q r] by (simp add: settle_fields)
  qed
  show "\<exists>b. blocking (settle p s) = Some b \<and> r \<le> b"
    if "r < nextPromise (settle p s)" "inherits (settle p s) r"
      "phaseOf (settle p s) r \<noteq> Settled" for r
  proof -
    have r: "r \<noteq> p" "r < nextPromise s" "inherits s r" "phaseOf s r \<noteq> Settled"
      using that by (auto simp: settle_fields split: if_splits)
    then obtain b where b: "blocking s = Some b" "r \<le> b"
      using wfD7 [OF wf, of r] by blast
    have "b \<noteq> p"
    proof
      assume "b = p"
      then have "r < p" "p < nextPromise s" "inherits s p"
        using b r(1) wfD5 [OF wf b(1)] by auto
      then have "r \<in> awaits s p"
        using wfD6 [OF wf, of p r] r(4) by simp
      then have "phaseOf s r = Settled"
        using wfD3 [OF wf, of p r] run by simp
      then show False using r(4) by simp
    qed
    then show ?thesis
      using b by (auto simp: settle_fields)
  qed
qed

lemma wellFormed_step:
  "wellFormed s \<Longrightarrow> step s e = Some s' \<Longrightarrow> wellFormed s'"
  by (cases e) (auto simp: wellFormed_spawn wellFormed_start wellFormed_settle split: if_splits)

lemma wellFormed_run:
  "wellFormed s \<Longrightarrow> run s es = Some s' \<Longrightarrow> wellFormed s'"
proof (induction es arbitrary: s)
  case Nil
  then show ?case by simp
next
  case (Cons e es)
  then show ?case
    by (auto split: option.splits dest: wellFormed_step)
qed

text \<open>What a step leaves alone.\<close>

lemma step_frame:
  assumes "step s e = Some s'" "p < nextPromise s"
  shows "awaits s' p = awaits s p" "inherits s' p = inherits s p" "p < nextPromise s'"
    "phaseOf s p = Settled \<Longrightarrow> phaseOf s' p = Settled"
  using assms by (cases e; auto simp: spawn_fields start_fields settle_fields split: if_splits)+

lemma run_frame:
  assumes "run s es = Some s'" "p < nextPromise s"
  shows "awaits s' p = awaits s p \<and> inherits s' p = inherits s p \<and> p < nextPromise s'
         \<and> (phaseOf s p = Settled \<longrightarrow> phaseOf s' p = Settled)"
  using assms
proof (induction es arbitrary: s)
  case Nil
  then show ?case by simp
next
  case (Cons e es)
  then obtain s1 where s1: "step s e = Some s1" "run s1 es = Some s'"
    by (auto split: option.splits)
  show ?case
    using Cons.IH [OF s1(2)] step_frame [OF s1(1) Cons.prems(2)] by auto
qed

text \<open>Without a further request with an inherited stream, the blocking promise stays.\<close>

lemma step_keeps_blocking:
  assumes "step s e = Some s'" "\<not> isExclusiveRequest e" "p < nextPromise s" "inherits s p"
    and "blocking s = Some p \<or> phaseOf s p = Settled"
  shows "blocking s' = Some p \<or> phaseOf s' p = Settled"
  using assms by (cases e) (auto simp: spawn_fields start_fields settle_fields split: if_splits)

lemma run_keeps_blocking:
  assumes "run s es = Some s'" "\<not> list_ex isExclusiveRequest es" "p < nextPromise s" "inherits s p"
    and "blocking s = Some p \<or> phaseOf s p = Settled"
  shows "blocking s' = Some p \<or> phaseOf s' p = Settled"
  using assms
proof (induction es arbitrary: s)
  case Nil
  then show ?case by simp
next
  case (Cons e es)
  then obtain s1 where s1: "step s e = Some s1" "run s1 es = Some s'"
    by (auto split: option.splits)
  have e: "\<not> isExclusiveRequest e" "\<not> list_ex isExclusiveRequest es"
    using Cons.prems(2) by auto
  have "blocking s1 = Some p \<or> phaseOf s1 p = Settled"
    using step_keeps_blocking [OF s1(1) e(1) Cons.prems(3,4,5)] .
  moreover have "p < nextPromise s1" "inherits s1 p"
    using step_frame [OF s1(1) Cons.prems(3)] Cons.prems(4) by auto
  ultimately show ?case
    using Cons.IH [OF s1(2) e(2)] by blast
qed

text \<open>
  Claim C4, as amended. Take any state the coordinator reaches, a spawn requested there,
  and any events after the request. The registry \<^verbatim>\<open>promises.all\<close> at the request holds
  exactly the requested operations that have not settled.

  If the request needs an inherited stream, it awaits the whole registry of the time
  of the request, and once it has started every operation of that registry has settled;
  it is recorded as the blocking operation at the request; until it settles the blocking
  operation is this one or one requested later with an inherited stream, which then
  awaits this one; and if no such later request is made, the blocking operation is this
  one until it settles.

  If the request needs no inherited stream, it awaits the blocking operation recorded
  at the request and nothing else: once it has started that operation has settled, and
  as soon as that operation has settled (or when there was none) it can start, whatever
  the other operations in flight do.
\<close>

theorem spawn_waits_for_registry_or_blocking:
  assumes earlier: "run initial earlier = Some s1"
    and later: "run (spawn options s1) later = Some s2"
  shows "all s1 = {q. q < nextPromise s1 \<and> phaseOf s1 q \<noteq> Settled}
    \<and> (needsExclusive options \<longrightarrow>
          awaits s2 (nextPromise s1) = all s1
          \<and> (phaseOf s2 (nextPromise s1) = Running \<or> phaseOf s2 (nextPromise s1) = Settled \<longrightarrow>
                (\<forall>q \<in> all s1. phaseOf s2 q = Settled))
          \<and> blocking (spawn options s1) = Some (nextPromise s1)
          \<and> (phaseOf s2 (nextPromise s1) \<noteq> Settled \<longrightarrow>
                (\<exists>b. blocking s2 = Some b \<and> nextPromise s1 \<le> b \<and> inherits s2 b
                     \<and> (b \<noteq> nextPromise s1 \<longrightarrow> nextPromise s1 \<in> awaits s2 b)))
          \<and> (\<not> list_ex isExclusiveRequest later \<and> phaseOf s2 (nextPromise s1) \<noteq> Settled \<longrightarrow>
                blocking s2 = Some (nextPromise s1)))
    \<and> (\<not> needsExclusive options \<longrightarrow>
          awaits s2 (nextPromise s1) = set_option (blocking s1)
          \<and> (phaseOf s2 (nextPromise s1) = Running \<or> phaseOf s2 (nextPromise s1) = Settled \<longrightarrow>
                (\<forall>q \<in> set_option (blocking s1). phaseOf s2 q = Settled))
          \<and> (phaseOf s2 (nextPromise s1) = Waiting
               \<and> (\<forall>q \<in> set_option (blocking s1). phaseOf s2 q = Settled) \<longrightarrow>
                step s2 (Start (nextPromise s1)) = Some (start (nextPromise s1) s2)))"
proof -
  let ?p = "nextPromise s1"
  have wf1: "wellFormed s1"
    using wellFormed_run [OF wellFormed_initial earlier] .
  have wf2: "wellFormed s2"
    using wellFormed_run [OF wellFormed_spawn [OF wf1] later] .
  have p: "?p < nextPromise (spawn options s1)"
    by (simp add: spawn_fields)
  have frame: "awaits s2 ?p = awaits (spawn options s1) ?p"
    "inherits s2 ?p = inherits (spawn options s1) ?p" "?p < nextPromise s2"
    using run_frame [OF later p] by simp_all
  have reg: "all s1 = {q. q < nextPromise s1 \<and> phaseOf s1 q \<noteq> Settled}"
    using wfD2 [OF wf1] .
  have started: "\<forall>q \<in> awaits s2 ?p. phaseOf s2 q = Settled"
    if "phaseOf s2 ?p = Running \<or> phaseOf s2 ?p = Settled"
    using wfD3 [OF wf2 that] by blast
  have excl: "awaits s2 ?p = all s1" "inherits s2 ?p"
    "blocking (spawn options s1) = Some ?p" if "needsExclusive options"
    using that frame by (simp_all add: spawn_fields)
  have piped: "awaits s2 ?p = set_option (blocking s1)" if "\<not> needsExclusive options"
    using that frame by (simp add: spawn_fields)
  have blk: "\<exists>b. blocking s2 = Some b \<and> ?p \<le> b \<and> inherits s2 b \<and> (b \<noteq> ?p \<longrightarrow> ?p \<in> awaits s2 b)"
    if x: "needsExclusive options" and u: "phaseOf s2 ?p \<noteq> Settled"
  proof -
    obtain b where b: "blocking s2 = Some b" "?p \<le> b"
      using wfD7 [OF wf2 frame(3) excl(2) [OF x] u] by blast
    have b2: "b < nextPromise s2" "inherits s2 b"
      using wfD5 [OF wf2 b(1)] by simp_all
    have "?p \<in> awaits s2 b" if "b \<noteq> ?p"
      using wfD6 [OF wf2 b2, of ?p] that b(2) u by simp
    then show ?thesis using b b2 by blast
  qed
  have stay: "blocking s2 = Some ?p"
    if x: "needsExclusive options" and n: "\<not> list_ex isExclusiveRequest later"
      and u: "phaseOf s2 ?p \<noteq> Settled"
  proof -
    have "inherits (spawn options s1) ?p" "blocking (spawn options s1) = Some ?p"
      using x by (simp_all add: spawn_fields)
    then show ?thesis
      using run_keeps_blocking [OF later n p] u by blast
  qed
  have go: "step s2 (Start ?p) = Some (start ?p s2)"
    if "\<not> needsExclusive options" "phaseOf s2 ?p = Waiting"
      "\<forall>q \<in> set_option (blocking s1). phaseOf s2 q = Settled"
    using that piped by simp
  have E: "awaits s2 ?p = all s1
          \<and> (phaseOf s2 ?p = Running \<or> phaseOf s2 ?p = Settled \<longrightarrow>
                (\<forall>q \<in> all s1. phaseOf s2 q = Settled))
          \<and> blocking (spawn options s1) = Some ?p
          \<and> (phaseOf s2 ?p \<noteq> Settled \<longrightarrow>
                (\<exists>b. blocking s2 = Some b \<and> ?p \<le> b \<and> inherits s2 b
                     \<and> (b \<noteq> ?p \<longrightarrow> ?p \<in> awaits s2 b)))
          \<and> (\<not> list_ex isExclusiveRequest later \<and> phaseOf s2 ?p \<noteq> Settled \<longrightarrow>
                blocking s2 = Some ?p)" if x: "needsExclusive options"
  proof (intro conjI impI)
    show "awaits s2 ?p = all s1" by (rule excl(1) [OF x])
    show "\<forall>q \<in> all s1. phaseOf s2 q = Settled"
      if "phaseOf s2 ?p = Running \<or> phaseOf s2 ?p = Settled"
      using started [OF that] excl(1) [OF x] by simp
    show "blocking (spawn options s1) = Some ?p" by (rule excl(3) [OF x])
    show "\<exists>b. blocking s2 = Some b \<and> ?p \<le> b \<and> inherits s2 b
                     \<and> (b \<noteq> ?p \<longrightarrow> ?p \<in> awaits s2 b)"
      if "phaseOf s2 ?p \<noteq> Settled"
      by (rule blk [OF x that])
    show "blocking s2 = Some ?p"
      if "\<not> list_ex isExclusiveRequest later \<and> phaseOf s2 ?p \<noteq> Settled"
      using stay [OF x] that by blast
  qed
  have P: "awaits s2 ?p = set_option (blocking s1)
          \<and> (phaseOf s2 ?p = Running \<or> phaseOf s2 ?p = Settled \<longrightarrow>
                (\<forall>q \<in> set_option (blocking s1). phaseOf s2 q = Settled))
          \<and> (phaseOf s2 ?p = Waiting
               \<and> (\<forall>q \<in> set_option (blocking s1). phaseOf s2 q = Settled) \<longrightarrow>
                step s2 (Start ?p) = Some (start ?p s2))" if x: "\<not> needsExclusive options"
  proof (intro conjI impI)
    show "awaits s2 ?p = set_option (blocking s1)" by (rule piped [OF x])
    show "\<forall>q \<in> set_option (blocking s1). phaseOf s2 q = Settled"
      if "phaseOf s2 ?p = Running \<or> phaseOf s2 ?p = Settled"
      using started [OF that] piped [OF x] by simp
    show "step s2 (Start ?p) = Some (start ?p s2)"
      if "phaseOf s2 ?p = Waiting \<and> (\<forall>q \<in> set_option (blocking s1). phaseOf s2 q = Settled)"
      using go [OF x] that by blast
  qed
  show ?thesis
    using reg E P by blast
qed

text \<open>
  Claim C4 as the specification states it has an operation with an inherited stream
  recorded as the blocking operation for the whole of its execution. When a second such
  operation is requested while the first is running, the first is still running and the
  blocking operation is the second.
\<close>

theorem blocking_replaced_counterexample:
  "run initial overtakingEvents \<noteq> None
   \<and> needsExclusive terminalOptions
   \<and> phaseOf (the (run initial overtakingEvents)) 0 = Running
   \<and> inherits (the (run initial overtakingEvents)) 0
   \<and> blocking (the (run initial overtakingEvents)) = Some 1"
  by (simp add: overtakingEvents_def initial_def spawn_def start_def terminalOptions_def
      needsExclusive_def)

theorem spawn_waits_for_registry_or_blocking_witness:
  "run initial earlierEvents \<noteq> None
   \<and> all (the (run initial earlierEvents)) = {0, 1}
   \<and> nextPromise (the (run initial earlierEvents)) = 2
   \<and> needsExclusive terminalOptions
   \<and> step (the (run (spawn terminalOptions (the (run initial earlierEvents))) [Settle 0])) (Start 2)
       = None
   \<and> run (spawn terminalOptions (the (run initial earlierEvents))) laterEvents \<noteq> None
   \<and> awaits (the (run (spawn terminalOptions (the (run initial earlierEvents))) laterEvents)) 2
       = {0, 1}
   \<and> phaseOf (the (run (spawn terminalOptions (the (run initial earlierEvents))) laterEvents)) 2
       = Running
   \<and> blocking (the (run (spawn terminalOptions (the (run initial earlierEvents))) laterEvents))
       = Some 2
   \<and> awaits (the (run (spawn terminalOptions (the (run initial earlierEvents))) laterEvents)) 3
       = {2}
   \<and> step (the (run (spawn terminalOptions (the (run initial earlierEvents))) laterEvents)) (Start 3)
       = None"
proof -
  define s1 where "s1 = the (run initial earlierEvents)"
  define s2 where "s2 = the (run (spawn terminalOptions s1) laterEvents)"
  have x: "needsExclusive terminalOptions"
    by (simp add: needsExclusive_def terminalOptions_def)
  have nx: "\<not> needsExclusive pipedOptions"
    by (simp add: needsExclusive_def pipedOptions_def)
  have r1: "run initial earlierEvents \<noteq> None"
    by (simp add: earlierEvents_def initial_def spawn_def start_def nx)
  then have e: "run initial earlierEvents = Some s1"
    by (simp add: s1_def)
  have s1: "all s1 = {0, 1}" "nextPromise s1 = 2"
    unfolding s1_def
    by (simp_all add: earlierEvents_def initial_def spawn_def start_def nx insert_commute)
  have r2: "run (spawn terminalOptions s1) laterEvents \<noteq> None"
    unfolding s1_def
    by (simp add: laterEvents_def earlierEvents_def initial_def spawn_def start_def settle_def nx x)
  then have l: "run (spawn terminalOptions s1) laterEvents = Some s2"
    by (simp add: s2_def)
  have early: "step (the (run (spawn terminalOptions s1) [Settle 0])) (Start 2) = None"
    unfolding s1_def
    by (simp add: earlierEvents_def initial_def spawn_def start_def settle_def nx x)
  have s2: "phaseOf s2 2 = Running" "blocking s2 = Some 2" "awaits s2 3 = {2}"
    "step s2 (Start 3) = None"
    unfolding s2_def s1_def
    by (simp_all add: laterEvents_def earlierEvents_def initial_def spawn_def start_def
        settle_def nx x)
  have "awaits s2 (nextPromise s1) = all s1"
    using spawn_waits_for_registry_or_blocking [OF e l] x by blast
  then have a: "awaits s2 2 = {0, 1}"
    using s1 by simp
  show ?thesis
    using r1 s1 x early r2 a s2 unfolding s1_def s2_def by simp
qed

end
